theory Spec2Isabelle
  imports Complex_Main "HOL-Library.AList" "HOL-Library.Product_Lexorder" "HOL-Library.Multiset"
    "HOL-Library.Word" "HOL-Library.Log_Nat"
begin

section \<open>The REMI event encoder and the bar-window dataset of dataloader.py\<close>

text \<open>
  A shallow embedding of \<^verbatim>\<open>src/dataloader.py\<close>: the vocabulary indexer, the time
  quantizer and event encoder, piece boundary normalization, the window sampler, the
  pitch augmenter and the tensor builder. Python exceptions are values of \<open>error\<close>,
  a function that may raise returns \<open>error + 'a\<close> (\<open>Inl\<close> the exception), and the one
  unbounded loop returns an \<open>option\<close> whose \<open>None\<close> is the run that never returns.
\<close>

declare upt_rec_numeral [simp del]

subsection \<open>Exceptions\<close>

text \<open>
  The exceptions the source can raise: \<open>RuntimeError\<close> is the explicit
  \<^verbatim>\<open>raise RuntimeError("No notes found.")\<close>, \<open>AssertionError\<close> a failed \<^verbatim>\<open>assert\<close> (with the asserted condition),
  \<open>ValueDuplicationError\<close> what the \<^verbatim>\<open>bidict\<close> constructor raises on a repeated value;
  the others are raised by Python's and numpy's indexing, arithmetic and conversions.
\<close>

datatype error = RuntimeError | IndexError | KeyError | ValueError | OverflowError
  | ZeroDivisionError | TypeError | AttributeError | AssertionError string
  | ValueDuplicationError


subsection \<open>Python sequences\<close>

text \<open>
  \<open>ebind\<close> sequences two computations that may raise: the first exception aborts.
\<close>

definition ebind :: "error + 'a \<Rightarrow> ('a \<Rightarrow> error + 'b) \<Rightarrow> error + 'b" where
  "ebind m f = (case m of Inl e \<Rightarrow> Inl e | Inr x \<Rightarrow> f x)"

text \<open>
  \<^verbatim>\<open>xs[i]\<close>: a negative index counts from the end, an index out of range raises
  \<^verbatim>\<open>IndexError\<close>. \<^verbatim>\<open>xs[a:b]\<close>: negative bounds count from the end, and bounds out of
  range are clamped, so a slice never raises.
\<close>

definition py_index :: "'a list \<Rightarrow> int \<Rightarrow> error + 'a" where
  "py_index xs i =
     (if 0 \<le> i \<and> i < int (length xs) then Inr (xs ! nat i)
      else if i < 0 \<and> - int (length xs) \<le> i then Inr (xs ! nat (int (length xs) + i))
      else Inl IndexError)"

definition slice_bound :: "nat \<Rightarrow> int \<Rightarrow> nat" where
  "slice_bound n i = (if i < 0 then nat (max 0 (int n + i)) else min n (nat i))"

definition py_slice :: "'a list \<Rightarrow> int \<Rightarrow> int \<Rightarrow> 'a list" where
  "py_slice xs a b = drop (slice_bound (length xs) a) (take (slice_bound (length xs) b) xs)"

text \<open>
  \<^verbatim>\<open>xs[a:]\<close>, and the assignment \<^verbatim>\<open>arr[a:b] = v\<close> of one value to a slice of a numpy
  array, which writes the positions of the (clamped) slice and no other.
\<close>

definition py_slice_from :: "'a list \<Rightarrow> int \<Rightarrow> 'a list" where
  "py_slice_from xs a = drop (slice_bound (length xs) a) xs"

definition assign_slice :: "'a list \<Rightarrow> int \<Rightarrow> int \<Rightarrow> 'a \<Rightarrow> 'a list" where
  "assign_slice arr a b v =
     (let lo = slice_bound (length arr) a; hi = slice_bound (length arr) b
      in take lo arr @ replicate (hi - lo) v @ drop (max lo hi) arr)"

text \<open>A loop body that may raise, run over a list: the first exception aborts.\<close>

fun emap :: "('a \<Rightarrow> error + 'b) \<Rightarrow> 'a list \<Rightarrow> error + 'b list" where
  "emap f [] = Inr []"
| "emap f (x # xs) = ebind (f x) (\<lambda>y. ebind (emap f xs) (\<lambda>ys. Inr (y # ys)))"

text \<open>
  The raw events of a stored piece are dictionaries \<^verbatim>\<open>{'name': ..., 'value': ...}\<close> whose
  value is \<^verbatim>\<open>None\<close>, an integer or a string.
\<close>

datatype pyval = NoneV | IntV int | StrV string

record raw_event =
  ev_name :: string
  ev_value :: pyval

subsection \<open>Vocabulary: \<^verbatim>\<open>get_remi_indexer\<close>\<close>

text \<open>
  \<^verbatim>\<open>f"note_on_{i}"\<close> formats a non-negative integer in decimal without leading zeros.
\<close>

definition digit_char :: "nat \<Rightarrow> char" where
  "digit_char d = ''0123456789'' ! d"

fun format_nat :: "nat \<Rightarrow> string" where
  "format_nat n =
     (if 10 \<le> n then format_nat (n div 10) @ [digit_char (n mod 10)]
      else [digit_char n])"

declare format_nat.simps [simp del]

text \<open>An integer in decimal, with a minus sign when it is negative.\<close>

definition format_int :: "int \<Rightarrow> string" where
  "format_int i = (if 0 \<le> i then format_nat (nat i) else CHR ''-'' # format_nat (nat (- i)))"

text \<open>
  A Python \<^verbatim>\<open>dict\<close> from strings to integers, as an association list in insertion
  order; \<^verbatim>\<open>indexer[k] = idx\<close> is \<open>AList.update\<close>, which overwrites the value of a key
  already present and appends a new key. \<open>index_range\<close> is one of the five
  \<^verbatim>\<open>for i in range(...): indexer[f"prefix{i}"] = idx; idx += 1\<close> loops, on the pair of
  the dictionary and the running \<^verbatim>\<open>idx\<close>.
\<close>

type_synonym pydict = "(string \<times> nat) list"

fun index_range :: "string \<Rightarrow> nat list \<Rightarrow> pydict \<times> nat \<Rightarrow> pydict \<times> nat" where
  "index_range prefix [] (indexer, idx) = (indexer, idx)"
| "index_range prefix (i # rest) (indexer, idx) =
     index_range prefix rest
       (AList.update (prefix @ format_nat i) idx indexer, idx + 1)"

definition remi_indexer_dict :: pydict where
  "remi_indexer_dict =
     (let s0 = (AList.update ''bar'' 0 [], 0 + 1);
          s1 = (AList.update ''eos'' (snd s0) (fst s0), snd s0 + 1);
          s2 = index_range ''note_on_'' [0..<128] s1;
          s3 = index_range ''note_duration_'' [1..<65] s2;
          s4 = index_range ''note_velocity_'' [0..<32] s3;
          s5 = index_range ''position_'' [0..<24] s4;
          s6 = index_range ''tempo_'' [30..<210] s5
      in fst s6)"

text \<open>
  \<^verbatim>\<open>bidict(indexer)\<close> keeps the dictionary and its inverse and raises when two keys
  carry the same value. \<open>encode\<close> is the lookup \<^verbatim>\<open>indexer[s]\<close>, \<open>decode\<close> the
  lookup \<^verbatim>\<open>indexer.inverse[c]\<close>; \<open>None\<close> is a missing key.
\<close>

record bidict =
  forward :: pydict
  inverse :: "(nat \<times> string) list"

definition make_bidict :: "pydict \<Rightarrow> error + bidict" where
  "make_bidict d =
     (if distinct (map snd d)
      then Inr \<lparr>forward = d, inverse = map (\<lambda>(k, v). (v, k)) d\<rparr>
      else Inl ValueDuplicationError)"

definition get_remi_indexer :: "error + bidict" where
  "get_remi_indexer = make_bidict remi_indexer_dict"

definition encode :: "bidict \<Rightarrow> string \<Rightarrow> nat option" where
  "encode b s = map_of (forward b) s"

definition decode :: "bidict \<Rightarrow> nat \<Rightarrow> string option" where
  "decode b c = map_of (inverse b) c"

text \<open>
  The enumeration order the specification gives: bar, eos, 128 note-on ids, 64
  note-duration ids (1..64), 32 note-velocity ids (0..31), 24 position ids (0..23) and 180
  tempo ids (30..209). This list follows the specification's words; the dictionary above
  follows the source, and the two are compared below.
\<close>

definition remi_keys :: "string list" where
  "remi_keys = [''bar'', ''eos'']
     @ map (\<lambda>i. ''note_on_'' @ format_nat i) [0..<128]
     @ map (\<lambda>i. ''note_duration_'' @ format_nat i) [1..<65]
     @ map (\<lambda>i. ''note_velocity_'' @ format_nat i) [0..<32]
     @ map (\<lambda>i. ''position_'' @ format_nat i) [0..<24]
     @ map (\<lambda>i. ''tempo_'' @ format_nat i) [30..<210]"

text \<open>Auxiliary notions for the proofs: the groups of keys, the first and sixth
  character of a key (which tell the groups apart), and a list numbered from 0.\<close>

definition key_tag :: "string \<Rightarrow> char \<times> char" where
  "key_tag s = (s ! 0, s ! 5)"

definition note_on_keys :: "string list" where
  "note_on_keys = map (\<lambda>i. ''note_on_'' @ format_nat i) [0..<128]"
definition note_duration_keys :: "string list" where
  "note_duration_keys = map (\<lambda>i. ''note_duration_'' @ format_nat i) [1..<65]"
definition note_velocity_keys :: "string list" where
  "note_velocity_keys = map (\<lambda>i. ''note_velocity_'' @ format_nat i) [0..<32]"
definition position_keys :: "string list" where
  "position_keys = map (\<lambda>i. ''position_'' @ format_nat i) [0..<24]"
definition tempo_keys :: "string list" where
  "tempo_keys = map (\<lambda>i. ''tempo_'' @ format_nat i) [30..<210]"

definition enumerate_keys :: "string list \<Rightarrow> pydict" where
  "enumerate_keys ks = zip ks [0..<length ks]"
subsection \<open>numpy arithmetic: \<^verbatim>\<open>int64\<close> and \<^verbatim>\<open>float64\<close>\<close>

text \<open>
  The measure table is a numpy array of 64-bit signed integers, and a timestamp enters
  the arithmetic through that type: times are \<open>int64\<close> values, read with \<open>sint\<close>; their
  differences and products wrap around, as the words' do.
\<close>

type_synonym int64 = "64 word"

text \<open>
  A quotient of two \<open>int64\<close> values is a \<^verbatim>\<open>float64\<close>: both operands are converted to
  doubles and the quotient is rounded to a double. \<open>to_float64\<close> rounds a rational number to
  the nearest number with 53 significant bits, a tie to the one with an even last bit.
  \<open>binade x\<close> is the exponent \<open>e\<close> with \<open>2^e \<le> x < 2^(e+1)\<close> of a positive \<open>x\<close>. The
  magnitudes that arise from \<open>int64\<close> operands lie between \<open>2^-63\<close> and \<open>2^63\<close>, where a
  double is neither subnormal nor infinite.
\<close>

definition binade :: "rat \<Rightarrow> int" where
  "binade x = (if 1 \<le> x then bitlen \<lfloor>x\<rfloor> - 1 else - bitlen (\<lceil>1 / x\<rceil> - 1))"

definition round_half_even :: "rat \<Rightarrow> int" where
  "round_half_even y =
     (let f = \<lfloor>y\<rfloor>; r = y - of_int f
      in if r < 1 / 2 then f else if 1 / 2 < r then f + 1 else if even f then f else f + 1)"

definition to_float64 :: "rat \<Rightarrow> rat" where
  "to_float64 x =
     (if x = 0 then 0
      else let s = 52 - binade \<bar>x\<bar>
           in sgn x * of_int (round_half_even (\<bar>x\<bar> * 2 powi s)) / 2 powi s)"

text \<open>
  \<^verbatim>\<open>ceil(a / b)\<close> for two \<open>int64\<close> values. With a zero divisor the quotient is \<^verbatim>\<open>nan\<close> (for
  \<open>0 / 0\<close>) or infinite, and \<^verbatim>\<open>ceil\<close> raises \<^verbatim>\<open>ValueError\<close> or \<^verbatim>\<open>OverflowError\<close>.
\<close>

definition float_ceil_div :: "int \<Rightarrow> int \<Rightarrow> error + int" where
  "float_ceil_div a b =
     (if b = 0 then (if a = 0 then Inl ValueError else Inl OverflowError)
      else Inr \<lceil>to_float64 (to_float64 (of_int a) / to_float64 (of_int b))\<rceil>)"

text \<open>
  The value numpy reads at index \<open>j\<close> of an array: a negative index counts from the end.
\<close>

definition np_at :: "int64 list \<Rightarrow> int \<Rightarrow> int" where
  "np_at a j = sint (a ! nat (j mod int (length a)))"

subsection \<open>The event encoder: \<^verbatim>\<open>to_remi_event_sequence\<close>\<close>

text \<open>
  A music object: the notes of its tracks, its tempo changes and its bar-line times.
  A time is taken to fit in 64 bits, as it must to enter the numpy array of measure
  times. Pitches, velocities and durations are Python integers, a tempo is a rational
  number of quarter notes per minute.
\<close>

record music_note =
  n_time :: int64
  n_pitch :: int
  n_velocity :: int
  n_duration :: int

record tempo =
  t_time :: int64
  t_qpm :: rat

record music =
  tracks :: "music_note list list"
  tempos :: "tempo list"
  barlines :: "int64 list"

text \<open>
  \<^verbatim>\<open>np.searchsorted(a, v, "right")\<close> on a sorted array: the number of leading entries
  that are at most \<open>v\<close>, that is the index \<open>i\<close> with \<open>a[i-1] \<le> v < a[i]\<close>.
\<close>

definition searchsorted_right :: "int64 list \<Rightarrow> int64 \<Rightarrow> nat" where
  "searchsorted_right a v = length (takeWhile (\<lambda>x. sint x \<le> sint v) a)"

text \<open>
  The bar-line times with a 0 put in front when the first is not 0, and the measure
  table that \<^verbatim>\<open>np.sort\<close> makes of them; \<^verbatim>\<open>barline_times[0]\<close> raises on a music object
  without bar lines.
\<close>

definition measure_table :: "int64 list \<Rightarrow> error + int64 list \<times> int64 list" where
  "measure_table barlines0 =
     ebind (py_index barlines0 0) (\<lambda>first.
       let barline_times = (if first \<noteq> 0 then 0 # barlines0 else barlines0);
           measure_times = sort_key sint barline_times
       in if length measure_times > 1 then Inr (barline_times, measure_times)
          else Inl (AssertionError ''len(measure_times) > 1''))"

text \<open>
  \<^verbatim>\<open>_get_measure_position\<close>. The resolution \<open>res\<close> is a Python integer that fits in 64
  bits. An index into the array \<open>measure_times\<close> counts from the end when it is negative.
  The measure length, the difference \<^verbatim>\<open>time - measure_times[measure_idx]\<close> and its
  product with \<open>res\<close> are \<open>int64\<close> values, which wrap around; their quotient is a double.
  Python's \<^verbatim>\<open>%\<close> takes the sign of the divisor, as \<open>mod\<close> does, and raises on the
  divisor 0.
\<close>

definition get_measure_position :: "int64 \<Rightarrow> int64 list \<Rightarrow> int64 \<Rightarrow> error + int \<times> int" where
  "get_measure_position res measure_times time =
     (let measure_idx = int (searchsorted_right measure_times time) - 1
      in ebind (if measure_idx < int (length measure_times) - 1
                then ebind (py_index measure_times (measure_idx + 1)) (\<lambda>next_time.
                     ebind (py_index measure_times measure_idx) (\<lambda>this_time.
                       Inr (next_time - this_time)))
                else ebind (py_index measure_times measure_idx) (\<lambda>this_time.
                     ebind (py_index measure_times (measure_idx - 1)) (\<lambda>prev_time.
                       Inr (this_time - prev_time)))) (\<lambda>measure_length.
         ebind (py_index measure_times measure_idx) (\<lambda>this_time.
         ebind (float_ceil_div (sint (res * (time - this_time))) (sint measure_length))
           (\<lambda>position.
             if res = 0 then Inl ZeroDivisionError
             else Inr (measure_idx, position mod sint res)))))"

text \<open>
  The class \<^verbatim>\<open>REMIEventSequence\<close> belongs to the library \<^verbatim>\<open>muspy\<close>, outside the source.
  Its methods \<^verbatim>\<open>to_bar_event\<close>, \<^verbatim>\<open>to_position_event\<close>, ... turn a value into the name of
  an event, a string: they are the parameter \<open>event_names\<close>. An event is kept as the
  method that built it with its argument; \<open>EosEvent\<close> is the string \<^verbatim>\<open>'eos'\<close> that the
  source appends itself.
\<close>

datatype remi_event = BarEvent | EosEvent | NoteOnEvent int | NoteVelocityEvent int
  | NoteDurationEvent int | PositionEvent int | TempoEvent rat

record event_names =
  to_bar_event :: string
  to_position_event :: "int \<Rightarrow> string"
  to_tempo_event :: "rat \<Rightarrow> string"
  to_note_on_event :: "int \<Rightarrow> string"
  to_note_velocity_event :: "int \<Rightarrow> string"
  to_note_duration_event :: "int \<Rightarrow> string"

fun event_name :: "event_names \<Rightarrow> remi_event \<Rightarrow> string" where
  "event_name nm BarEvent = to_bar_event nm"
| "event_name nm EosEvent = ''eos''"
| "event_name nm (NoteOnEvent p) = to_note_on_event nm p"
| "event_name nm (NoteVelocityEvent v) = to_note_velocity_event nm v"
| "event_name nm (NoteDurationEvent d) = to_note_duration_event nm d"
| "event_name nm (PositionEvent p) = to_position_event nm p"
| "event_name nm (TempoEvent q) = to_tempo_event nm q"

text \<open>
  Modelled from the spec: the methods \<^verbatim>\<open>append_event\<close> and \<^verbatim>\<open>extend_events\<close> of the
  sequence class. The encoder's result is a sequence of token ids, which the inverse
  vocabulary decodes: the sequence holds the integer codes of its events, and
  \<^verbatim>\<open>seq.append_event(e)\<close> and \<^verbatim>\<open>seq.extend_events(es)\<close> look each event up in the
  sequence's indexer, \<^verbatim>\<open>seq.indexer[e]\<close>, which raises \<^verbatim>\<open>KeyError\<close> on a name that is not a
  key of the vocabulary.
\<close>

definition append_event :: "bidict \<Rightarrow> event_names \<Rightarrow> remi_event \<Rightarrow> error + nat" where
  "append_event indexer nm e =
     (case encode indexer (event_name nm e) of None \<Rightarrow> Inl KeyError | Some c \<Rightarrow> Inr c)"

text \<open>
  The three loops of \<^verbatim>\<open>to_remi_event_sequence\<close> collect pairs of a key
  \<open>(measure_idx, position)\<close> and a group of events; the loop over the notes skips a note
  whose duration is not positive. \<^verbatim>\<open>res*2\<close> is a product of Python integers.
\<close>

definition bar_group ::
  "int64 \<Rightarrow> int64 list \<Rightarrow> int64 \<Rightarrow> error + (int \<times> int) \<times> remi_event list" where
  "bar_group res measure_times barline_time =
     ebind (get_measure_position res measure_times barline_time) (\<lambda>mp. Inr (mp, [BarEvent]))"

definition tempo_group ::
  "int64 \<Rightarrow> int64 list \<Rightarrow> tempo \<Rightarrow> error + (int \<times> int) \<times> remi_event list" where
  "tempo_group res measure_times tp =
     ebind (get_measure_position res measure_times (t_time tp)) (\<lambda>mp.
       Inr (mp, [TempoEvent (min 209 (max (t_qpm tp) 30))]))"

definition note_group ::
  "int64 \<Rightarrow> int64 list \<Rightarrow> music_note \<Rightarrow> error + (int \<times> int) \<times> remi_event list" where
  "note_group res measure_times n =
     ebind (get_measure_position res measure_times (n_time n)) (\<lambda>mp.
       Inr (mp, [NoteOnEvent (n_pitch n), NoteVelocityEvent (n_velocity n),
                 NoteDurationEvent (min (max (n_duration n) 1) (sint res * 2))]))"

definition collect_events ::
  "int64 \<Rightarrow> music \<Rightarrow> music_note list \<Rightarrow> error + ((int \<times> int) \<times> remi_event list) list" where
  "collect_events res music notes =
     ebind (measure_table (barlines music)) (\<lambda>tables.
       let barline_times = fst tables; measure_times = snd tables
       in ebind (emap (bar_group res measure_times) barline_times) (\<lambda>bar_events.
          ebind (emap (tempo_group res measure_times) (tempos music)) (\<lambda>tempo_events.
          ebind (emap (note_group res measure_times)
                   (filter (\<lambda>n. n_duration n > 0) notes)) (\<lambda>note_events.
            Inr (bar_events @ tempo_events @ note_events)))))"

text \<open>
  The last loop: a group that does not start with the string \<^verbatim>\<open>"bar"\<close> is announced by
  a position event, and \<^verbatim>\<open>'eos'\<close> closes the sequence. \<open>event_stream\<close> is the events in
  the order in which they are appended, \<open>serialize\<close> their codes.
\<close>

definition event_stream ::
  "event_names \<Rightarrow> ((int \<times> int) \<times> remi_event list) list \<Rightarrow> remi_event list" where
  "event_stream nm events =
     concat (map (\<lambda>event. if event_name nm (hd (snd event)) \<noteq> ''bar''
                           then PositionEvent (snd (fst event)) # snd event
                           else snd event) events)
     @ [EosEvent]"

definition serialize ::
  "bidict \<Rightarrow> event_names \<Rightarrow> ((int \<times> int) \<times> remi_event list) list \<Rightarrow> error + nat list" where
  "serialize indexer nm events = emap (append_event indexer nm) (event_stream nm events)"

text \<open>
  \<^verbatim>\<open>to_remi_event_sequence\<close>. \<^verbatim>\<open>music.adjust_resolution(res)\<close> is a method of the music
  class, outside the source: it is the parameter \<open>adjust_resolution\<close>. The sort by the
  key is stable, as Python's is. The result is the list of codes of the sequence.
\<close>

definition to_remi_event_sequence ::
  "event_names \<Rightarrow> (int64 \<Rightarrow> music \<Rightarrow> music) \<Rightarrow> music \<Rightarrow> int64 \<Rightarrow> error + nat list" where
  "to_remi_event_sequence nm adjust_resolution music0 res =
     (let music = adjust_resolution res music0;
          notes = concat (tracks music)
      in if notes = [] then Inl RuntimeError
         else ebind get_remi_indexer (\<lambda>indexer.
              ebind (collect_events res music notes) (\<lambda>events.
                serialize indexer nm (sort_key fst events))))"

text \<open>The pitches of the note-on events of a sequence, in order.\<close>

fun note_on_pitches :: "remi_event list \<Rightarrow> int list" where
  "note_on_pitches [] = []"
| "note_on_pitches (NoteOnEvent p # rest) = p # note_on_pitches rest"
| "note_on_pitches (e # rest) = note_on_pitches rest"

text \<open>
  A naming of the events for the examples: the kind of the event and its value in
  decimal (a tempo rounded down), in the format of the vocabulary's keys.
\<close>

definition plain_names :: event_names where
  "plain_names =
     \<lparr>to_bar_event = ''bar'',
      to_position_event = (\<lambda>p. ''position_'' @ format_int p),
      to_tempo_event = (\<lambda>q. ''tempo_'' @ format_int \<lfloor>q\<rfloor>),
      to_note_on_event = (\<lambda>p. ''note_on_'' @ format_int p),
      to_note_velocity_event = (\<lambda>v. ''note_velocity_'' @ format_int v),
      to_note_duration_event = (\<lambda>d. ''note_duration_'' @ format_int d)\<rparr>"

text \<open>
  The examples are music objects at the resolution asked for, which
  \<^verbatim>\<open>adjust_resolution\<close> leaves as they are.
\<close>

definition keep_resolution :: "int64 \<Rightarrow> music \<Rightarrow> music" where
  "keep_resolution res m = m"

text \<open>
  Two music objects with bar lines at 0 and 96: one whose only note has duration 0, and
  one with a tempo change, a note of duration 4 and a note of duration 0.
\<close>

definition silent_music :: music where
  "silent_music =
     \<lparr>tracks = [[\<lparr>n_time = 0, n_pitch = 60, n_velocity = 20, n_duration = 0\<rparr>]],
      tempos = [], barlines = [0, 96]\<rparr>"

definition demo_music :: music where
  "demo_music =
     \<lparr>tracks = [[\<lparr>n_time = 0, n_pitch = 60, n_velocity = 20, n_duration = 4\<rparr>,
                 \<lparr>n_time = 48, n_pitch = 62, n_velocity = 30, n_duration = 0\<rparr>]],
      tempos = [\<lparr>t_time = 0, t_qpm = 120\<rparr>], barlines = [0, 96]\<rparr>"

subsection \<open>Piece boundary normalization: \<^verbatim>\<open>build_dataset\<close>\<close>

text \<open>
  The body of the loop of \<^verbatim>\<open>build_dataset\<close> on one stored pair
  \<^verbatim>\<open>bar_pos, p_evs = pickle_load(p)\<close>: drop the last boundary when it equals
  \<^verbatim>\<open>len(p_evs)\<close>, drop the (new) last boundary when it lies exactly 2 tokens before the
  end, append \<^verbatim>\<open>len(p_evs)\<close>. Each \<^verbatim>\<open>bar_pos[-1]\<close> raises \<^verbatim>\<open>IndexError\<close> on an empty
  list. The events are not changed.
\<close>

definition normalize_bar_pos :: "int list \<Rightarrow> 'a list \<Rightarrow> error + int list" where
  "normalize_bar_pos bar_pos p_evs =
     ebind (py_index bar_pos (- 1)) (\<lambda>last1.
       let bar_pos1 = (if last1 = int (length p_evs) then py_slice bar_pos 0 (- 1) else bar_pos)
       in ebind (py_index bar_pos1 (- 1)) (\<lambda>last2.
            let bar_pos2 = (if int (length p_evs) - last2 = 2
                            then py_slice bar_pos1 0 (- 1) else bar_pos1)
            in Inr (bar_pos2 @ [int (length p_evs)])))"

text \<open>
  \<^verbatim>\<open>build_dataset\<close> runs the body over all stored pieces, in order, and collects the
  normalized boundary lists in \<^verbatim>\<open>self.piece_bar_pos\<close>; the first exception aborts.
\<close>

fun build_dataset :: "(int list \<times> 'a list) list \<Rightarrow> error + int list list" where
  "build_dataset [] = Inr []"
| "build_dataset ((bar_pos, p_evs) # rest) =
     ebind (normalize_bar_pos bar_pos p_evs) (\<lambda>b.
       ebind (build_dataset rest) (\<lambda>bs. Inr (b # bs)))"

subsection \<open>Pitch transposition: \<^verbatim>\<open>transpose_chord\<close>, \<^verbatim>\<open>check_extreme_pitch\<close>, \<^verbatim>\<open>transpose_events\<close>\<close>

definition IDX_TO_KEY :: "(int \<times> string) list" where
  "IDX_TO_KEY = [(0, ''A''), (1, ''A#''), (2, ''B''), (3, ''C''), (4, ''C#''), (5, ''D''),
     (6, ''D#''), (7, ''E''), (8, ''F''), (9, ''F#''), (10, ''G''), (11, ''G#'')]"

definition KEY_TO_IDX :: "(string \<times> int) list" where
  "KEY_TO_IDX = map (\<lambda>(k, v). (v, k)) IDX_TO_KEY"

definition dict_get :: "('k \<times> 'v) list \<Rightarrow> 'k \<Rightarrow> error + 'v" where
  "dict_get d k = (case map_of d k of None \<Rightarrow> Inl KeyError | Some v \<Rightarrow> Inr v)"

text \<open>
  \<^verbatim>\<open>s.replace(old, new)\<close> replaces the occurrences of \<open>old\<close> from left to right without
  overlap; for an empty \<open>old\<close> Python inserts \<open>new\<close> before every character and at the end.
\<close>

function str_replace :: "string \<Rightarrow> string \<Rightarrow> string \<Rightarrow> string" where
  "str_replace old new s =
     (if old = [] then new @ concat (map (\<lambda>c. c # new) s)
      else if s = [] then []
      else if take (length old) s = old then new @ str_replace old new (drop (length old) s)
      else hd s # str_replace old new (tl s))"
  by pat_completeness auto
termination
  by (relation "measure (\<lambda>(old, new, s). length s)") auto

declare str_replace.simps [simp del]

text \<open>
  \<^verbatim>\<open>chord_event['value'].split('_')[0]\<close>: the part of the string before the first
  underscore. Only a string has \<^verbatim>\<open>split\<close>.
\<close>

definition get_chord_tone :: "raw_event \<Rightarrow> error + string" where
  "get_chord_tone chord_event =
     (case ev_value chord_event of
        StrV s \<Rightarrow> Inr (takeWhile (\<lambda>c. c \<noteq> CHR ''_'') s)
      | _ \<Rightarrow> Inl AttributeError)"

definition transpose_chord :: "raw_event \<Rightarrow> int \<Rightarrow> error + raw_event" where
  "transpose_chord chord_event n_keys =
     (if ev_value chord_event = StrV ''N_N'' then Inr chord_event
      else ebind (get_chord_tone chord_event) (\<lambda>orig_tone.
           ebind (dict_get KEY_TO_IDX orig_tone) (\<lambda>orig_tone_idx.
             let new_tone_idx = (orig_tone_idx + 12 + n_keys) mod 12
             in ebind (dict_get IDX_TO_KEY new_tone_idx) (\<lambda>new_tone.
                  case ev_value chord_event of
                    StrV s \<Rightarrow>
                      Inr \<lparr>ev_name = ev_name chord_event,
                           ev_value = StrV (str_replace (orig_tone @ ''_'') (new_tone @ ''_'') s)\<rparr>
                  | _ \<Rightarrow> Inl AttributeError))))"

text \<open>
  \<^verbatim>\<open>int(ev['value'])\<close>: the identity on an integer, \<^verbatim>\<open>TypeError\<close> on \<^verbatim>\<open>None\<close>. On a
  string it is Python's parser of integer literals, which is not part of the source: it
  is the parameter \<open>int_of_str\<close>, and \<open>None\<close> is its \<^verbatim>\<open>ValueError\<close>.
\<close>

definition py_int :: "(string \<Rightarrow> int option) \<Rightarrow> pyval \<Rightarrow> error + int" where
  "py_int int_of_str v =
     (case v of
        IntV i \<Rightarrow> Inr i
      | NoneV \<Rightarrow> Inl TypeError
      | StrV s \<Rightarrow> (case int_of_str s of None \<Rightarrow> Inl ValueError | Some i \<Rightarrow> Inr i))"

text \<open>The loop of \<^verbatim>\<open>check_extreme_pitch\<close> on the pair \<open>(low, high)\<close>, started at \<open>(128, 0)\<close>.\<close>

fun extreme_pitch_loop ::
  "(string \<Rightarrow> int option) \<Rightarrow> raw_event list \<Rightarrow> int \<times> int \<Rightarrow> error + int \<times> int" where
  "extreme_pitch_loop int_of_str [] (low, high) = Inr (low, high)"
| "extreme_pitch_loop int_of_str (ev # rest) (low, high) =
     (if ev_name ev = ''Note_Pitch''
      then ebind (py_int int_of_str (ev_value ev)) (\<lambda>p.
             extreme_pitch_loop int_of_str rest (min low p, max high p))
      else extreme_pitch_loop int_of_str rest (low, high))"

definition check_extreme_pitch ::
  "(string \<Rightarrow> int option) \<Rightarrow> raw_event list \<Rightarrow> error + int \<times> int" where
  "check_extreme_pitch int_of_str raw_events = extreme_pitch_loop int_of_str raw_events (128, 0)"

text \<open>
  One iteration of the loop of \<^verbatim>\<open>transpose_events\<close>. \<^verbatim>\<open>ev['value'] + n_keys\<close> is
  integer addition on an integer and raises \<^verbatim>\<open>TypeError\<close> on a string or \<^verbatim>\<open>None\<close>.
\<close>

definition transpose_event :: "raw_event \<Rightarrow> int \<Rightarrow> error + raw_event" where
  "transpose_event ev n_keys =
     (if ev_name ev = ''Note_Pitch''
      then (case ev_value ev of
              IntV p \<Rightarrow> Inr \<lparr>ev_name = ev_name ev, ev_value = IntV (p + n_keys)\<rparr>
            | _ \<Rightarrow> Inl TypeError)
      else if ev_name ev = ''Chord'' then transpose_chord ev n_keys
      else Inr ev)"

fun transpose_loop :: "raw_event list \<Rightarrow> int \<Rightarrow> error + raw_event list" where
  "transpose_loop [] n_keys = Inr []"
| "transpose_loop (ev # rest) n_keys =
     ebind (transpose_event ev n_keys) (\<lambda>ev'.
       ebind (transpose_loop rest n_keys) (\<lambda>rest'. Inr (ev' # rest')))"

definition transpose_events :: "raw_event list \<Rightarrow> int \<Rightarrow> error + raw_event list" where
  "transpose_events raw_events n_keys =
     ebind (transpose_loop raw_events n_keys) (\<lambda>transposed_raw_events.
       if length transposed_raw_events = length raw_events
       then Inr transposed_raw_events
       else Inl (AssertionError ''len(transposed_raw_events) == len(raw_events)''))"

subsection \<open>The dataset object: \<^verbatim>\<open>REMIFullSongTransformerDataset\<close>\<close>

text \<open>
  The fields of the dataset after \<^verbatim>\<open>__init__\<close>. \<open>pieces\<close> holds, for each piece file, the
  stored pair \<^verbatim>\<open>(bar_pos, p_evs)\<close> that \<^verbatim>\<open>pickle_load\<close> returns; \<open>polyph_store\<close> and
  \<open>rhythm_store\<close> hold the per-bar label lists of the files under \<^verbatim>\<open>attr_cls/polyph\<close>
  and \<^verbatim>\<open>attr_cls/rhythm\<close>; \<open>piece_bar_pos\<close> is what \<^verbatim>\<open>build_dataset\<close> computed.
  Lengths and capacities are natural numbers; the appointed start bar is \<^verbatim>\<open>None\<close> or
  an integer.
\<close>

record dataset =
  event2idx :: "(string \<times> nat) list"
  pad_token :: nat
  pieces :: "(int list \<times> raw_event list) list"
  polyph_store :: "int list list"
  rhythm_store :: "int list list"
  piece_bar_pos :: "int list list"
  model_enc_seqlen :: nat
  model_dec_seqlen :: nat
  model_max_bars :: nat
  do_augment :: bool
  augment_range :: "int list"
  min_pitch :: int
  max_pitch :: int
  pad_to_same :: bool
  use_attr_cls :: bool
  appoint_st_bar :: "int option"
  dec_end_pad_value :: nat

text \<open>
  \<^verbatim>\<open>random.choice(seq)\<close> raises \<^verbatim>\<open>IndexError\<close> on an empty sequence and otherwise returns
  one of its elements; the element is picked by a number \<open>r\<close> of the random source, and
  every element is picked by some \<open>r\<close>.
\<close>

definition random_choice :: "nat \<Rightarrow> 'a list \<Rightarrow> error + 'a" where
  "random_choice r xs = (if xs = [] then Inl IndexError else Inr (xs ! (r mod length xs)))"

subsection \<open>The pitch augmenter: \<^verbatim>\<open>pitch_augment\<close>\<close>

text \<open>
  The \<^verbatim>\<open>while\<close> loop of \<^verbatim>\<open>pitch_augment\<close>. It has no retry bound, so it is a partial
  function: \<open>None\<close> is the run that never leaves the loop. \<open>rnd k\<close> is the \<open>k\<close>-th number
  of the random source. The loop is entered after a first successful
  \<^verbatim>\<open>random.choice\<close>, so the range is not empty and the draws inside cannot raise.
\<close>

partial_function (option) draw_until_fits ::
  "dataset \<Rightarrow> (nat \<Rightarrow> nat) \<Rightarrow> int \<Rightarrow> int \<Rightarrow> nat \<Rightarrow> int \<Rightarrow> int option" where
  "draw_until_fits ds rnd bar_min_pitch bar_max_pitch k n_keys =
     (if bar_min_pitch + n_keys < min_pitch ds \<or> bar_max_pitch + n_keys > max_pitch ds
      then draw_until_fits ds rnd bar_min_pitch bar_max_pitch (Suc k)
             (augment_range ds ! (rnd k mod length (augment_range ds)))
      else Some n_keys)"

definition pitch_augment ::
  "(string \<Rightarrow> int option) \<Rightarrow> dataset \<Rightarrow> (nat \<Rightarrow> nat) \<Rightarrow> raw_event list
     \<Rightarrow> (error + raw_event list) option" where
  "pitch_augment int_of_str ds rnd bar_events =
     (case check_extreme_pitch int_of_str bar_events of
        Inl e \<Rightarrow> Some (Inl e)
      | Inr (bar_min_pitch, bar_max_pitch) \<Rightarrow>
          (case random_choice (rnd 0) (augment_range ds) of
             Inl e \<Rightarrow> Some (Inl e)
           | Inr n_keys0 \<Rightarrow>
               (case draw_until_fits ds rnd bar_min_pitch bar_max_pitch 1 n_keys0 of
                  None \<Rightarrow> None
                | Some n_keys \<Rightarrow> Some (transpose_events bar_events n_keys))))"

text \<open>
  The default arguments of the constructor, over an empty store: 128 tokens per bar,
  1280 decoder tokens, 16 bars, shifts \<^verbatim>\<open>range(-6, 7)\<close>, pitch band 22..107.
\<close>

definition default_dataset :: dataset where
  "default_dataset =
     \<lparr>event2idx = [], pad_token = 0, pieces = [], polyph_store = [], rhythm_store = [],
      piece_bar_pos = [], model_enc_seqlen = 128, model_dec_seqlen = 1280, model_max_bars = 16,
      do_augment = True, augment_range = [- 6, - 5, - 4, - 3, - 2, - 1, 0, 1, 2, 3, 4, 5, 6],
      min_pitch = 22, max_pitch = 107, pad_to_same = True, use_attr_cls = True,
      appoint_st_bar = None, dec_end_pad_value = 0\<rparr>"

text \<open>A window of five raw events, and the same window shifted up by two semitones.\<close>

definition demo_events :: "raw_event list" where
  "demo_events =
     [\<lparr>ev_name = ''Bar'', ev_value = NoneV\<rparr>,
      \<lparr>ev_name = ''Chord'', ev_value = StrV ''N_N''\<rparr>,
      \<lparr>ev_name = ''Note_Pitch'', ev_value = IntV 60\<rparr>,
      \<lparr>ev_name = ''Chord'', ev_value = StrV ''C_maj''\<rparr>,
      \<lparr>ev_name = ''Note_Pitch'', ev_value = IntV 64\<rparr>]"

definition demo_augmented :: "raw_event list" where
  "demo_augmented =
     [\<lparr>ev_name = ''Bar'', ev_value = NoneV\<rparr>,
      \<lparr>ev_name = ''Chord'', ev_value = StrV ''N_N''\<rparr>,
      \<lparr>ev_name = ''Note_Pitch'', ev_value = IntV 62\<rparr>,
      \<lparr>ev_name = ''Chord'', ev_value = StrV ''D_maj''\<rparr>,
      \<lparr>ev_name = ''Note_Pitch'', ev_value = IntV 66\<rparr>]"

subsection \<open>The window sampler: \<^verbatim>\<open>get_sample_from_file\<close>\<close>

text \<open>
  \<open>r\<close> is the number of the random source that \<^verbatim>\<open>random.choice\<close> uses for the start
  bar. The result is \<^verbatim>\<open>(piece_evs, picked_st_bar, picked_bar_pos, n_bars)\<close>.
\<close>

definition pick_st_bar :: "dataset \<Rightarrow> nat \<Rightarrow> int list \<Rightarrow> error + int" where
  "pick_st_bar ds r bar_pos =
     (if length bar_pos > model_max_bars ds \<and> appoint_st_bar ds = None
      then random_choice r (map int [0..<length bar_pos - model_max_bars ds])
      else (case appoint_st_bar ds of
              Some a \<Rightarrow>
                if a < int (length bar_pos) - int (model_max_bars ds) then Inr a else Inr 0
            | None \<Rightarrow> Inr 0))"

definition get_sample_from_file ::
  "dataset \<Rightarrow> nat \<Rightarrow> nat \<Rightarrow> error + raw_event list \<times> int \<times> int list \<times> nat" where
  "get_sample_from_file ds r piece_idx =
     ebind (py_index (pieces ds) (int piece_idx)) (\<lambda>stored.
     ebind (py_index (piece_bar_pos ds) (int piece_idx)) (\<lambda>bar_pos.
     ebind (pick_st_bar ds r bar_pos) (\<lambda>picked_st_bar.
       if length bar_pos > model_max_bars ds
       then ebind (py_index bar_pos picked_st_bar) (\<lambda>first.
            ebind (py_index bar_pos (picked_st_bar + int (model_max_bars ds))) (\<lambda>stop.
              Inr (py_slice (snd stored) first stop,
                   picked_st_bar,
                   map (\<lambda>b. b - first)
                     (py_slice bar_pos picked_st_bar (picked_st_bar + int (model_max_bars ds))),
                   model_max_bars ds)))
       else ebind (py_index bar_pos (- 1)) (\<lambda>final.
              let picked_bar_pos =
                    bar_pos @ replicate (model_max_bars ds - length bar_pos) final
              in if length picked_bar_pos = model_max_bars ds
                 then Inr (snd stored, picked_st_bar, picked_bar_pos, length bar_pos)
                 else Inl (AssertionError ''len(picked_bar_pos) == self.model_max_bars'')))))"

subsection \<open>Attribute labels: \<^verbatim>\<open>get_attr_classes\<close> and their expansion\<close>

definition pad_sequence :: "'a list \<Rightarrow> nat \<Rightarrow> 'a \<Rightarrow> 'a list" where
  "pad_sequence seq maxlen pad_value = seq @ replicate (maxlen - length seq) pad_value"

text \<open>
  One label list: the slice \<^verbatim>\<open>[st_bar : st_bar + model_max_bars]\<close> of the stored per-bar
  labels of the piece, extended with zeros to \<^verbatim>\<open>model_max_bars\<close> entries.
\<close>

definition attr_classes :: "dataset \<Rightarrow> int list list \<Rightarrow> nat \<Rightarrow> int \<Rightarrow> error + int list" where
  "attr_classes ds store piece_idx st_bar =
     ebind (py_index store (int piece_idx)) (\<lambda>stored.
       let cls = py_slice stored st_bar (st_bar + int (model_max_bars ds));
           cls = cls @ replicate (model_max_bars ds - length cls) 0
       in if length cls = model_max_bars ds then Inr cls
          else Inl (AssertionError ''len(cls) == self.model_max_bars''))"

definition get_attr_classes :: "dataset \<Rightarrow> nat \<Rightarrow> int \<Rightarrow> error + int list \<times> int list" where
  "get_attr_classes ds piece_idx st_bar =
     ebind (attr_classes ds (polyph_store ds) piece_idx st_bar) (\<lambda>polyph_cls.
     ebind (attr_classes ds (rhythm_store ds) piece_idx st_bar) (\<lambda>rfreq_cls.
       Inr (polyph_cls, rfreq_cls)))"

text \<open>
  The loop \<^verbatim>\<open>for i, (b_st, b_ed) in enumerate(zip(bar_pos[:-1], bar_pos[1:]))\<close> of
  \<^verbatim>\<open>__getitem__\<close> on the pair of the two expanded arrays:
  \<^verbatim>\<open>polyph_cls_expanded[b_st:b_ed] = polyph_cls[i]\<close> and the same for the rhythm labels.
  \<open>expand_labels\<close> starts it on two zero arrays of length \<^verbatim>\<open>model_dec_seqlen\<close>, with
  the \<^verbatim>\<open>bar_pos\<close> array as \<^verbatim>\<open>get_sample_from_file\<close> returned it.
\<close>

fun broadcast_labels ::
  "(int \<times> int) list \<Rightarrow> nat \<Rightarrow> int list \<Rightarrow> int list \<Rightarrow> int list \<times> int list
     \<Rightarrow> error + int list \<times> int list" where
  "broadcast_labels [] i polyph_cls rfreq_cls expanded = Inr expanded"
| "broadcast_labels ((b_st, b_ed) # rest) i polyph_cls rfreq_cls expanded =
     ebind (py_index polyph_cls (int i)) (\<lambda>p.
     ebind (py_index rfreq_cls (int i)) (\<lambda>q.
       broadcast_labels rest (Suc i) polyph_cls rfreq_cls
         (assign_slice (fst expanded) b_st b_ed p, assign_slice (snd expanded) b_st b_ed q)))"

definition expand_labels ::
  "dataset \<Rightarrow> int list \<Rightarrow> int list \<Rightarrow> int list \<Rightarrow> error + int list \<times> int list" where
  "expand_labels ds bar_pos polyph_cls rfreq_cls =
     broadcast_labels (zip (py_slice bar_pos 0 (- 1)) (py_slice_from bar_pos 1)) 0
       polyph_cls rfreq_cls
       (replicate (model_dec_seqlen ds) 0, replicate (model_dec_seqlen ds) 0)"

subsection \<open>Token conversion: \<^verbatim>\<open>convert_event\<close>\<close>

text \<open>
  \<^verbatim>\<open>'{}_{}'.format(e['name'], e['value'])\<close> prints \<^verbatim>\<open>None\<close> as \<^verbatim>\<open>None\<close>, an integer in
  decimal and a string as it is. \<^verbatim>\<open>event_seq[0]\<close> raises on an empty window, and a key
  missing from the vocabulary raises \<^verbatim>\<open>KeyError\<close>. The stored events are dictionaries,
  so the branch for events that are already keys is not taken.
\<close>

definition py_str :: "pyval \<Rightarrow> string" where
  "py_str v = (case v of NoneV \<Rightarrow> ''None'' | IntV i \<Rightarrow> format_int i | StrV s \<Rightarrow> s)"

definition convert_event :: "raw_event list \<Rightarrow> (string \<times> nat) list \<Rightarrow> error + nat list" where
  "convert_event event_seq e2i =
     (if event_seq = [] then Inl IndexError
      else emap (\<lambda>e. dict_get e2i (ev_name e @ ''_'' @ py_str (ev_value e))) event_seq)"

subsection \<open>The tensor builder: \<^verbatim>\<open>get_encoder_input_data\<close>\<close>

text \<open>
  \<open>enc_assertion\<close> is the failure of the \<^verbatim>\<open>assert\<close> that opens
  \<^verbatim>\<open>get_encoder_input_data\<close>. The three arrays of the encoder path: \<open>padded_enc_input\<close> and \<open>enc_padding_mask\<close> are
  lists of \<^verbatim>\<open>model_max_bars\<close> rows, \<open>enc_lens\<close> has one entry per bar.
\<close>

record enc_data =
  padded_enc_input :: "nat list list"
  enc_padding_mask :: "bool list list"
  enc_lens :: "int list"

text \<open>
  One iteration of the loop over \<^verbatim>\<open>enumerate(zip(bar_positions[:-1], bar_positions[1:]))\<close>:
  \<^verbatim>\<open>enc_padding_mask[b, :(ed - st)] = False\<close>, \<^verbatim>\<open>enc_lens[b] = ed - st\<close>, and row \<open>b\<close> of
  the input becomes the first \<^verbatim>\<open>model_enc_seqlen\<close> tokens of the padded slice
  \<^verbatim>\<open>bar_events[st:ed]\<close>. An index \<open>b\<close> outside the arrays raises \<^verbatim>\<open>IndexError\<close>, a row of
  another length than \<^verbatim>\<open>model_enc_seqlen\<close> cannot be stored (\<^verbatim>\<open>ValueError\<close>).
\<close>

definition enc_step :: "dataset \<Rightarrow> nat list \<Rightarrow> nat \<Rightarrow> int \<times> int \<Rightarrow> enc_data \<Rightarrow> error + enc_data" where
  "enc_step ds bar_events b sted d =
     (let st = fst sted; ed = snd sted
      in if b < length (enc_padding_mask d) \<and> b < length (enc_lens d)
            \<and> b < length (padded_enc_input d)
         then let mask = (enc_padding_mask d)
                    [b := assign_slice (enc_padding_mask d ! b) 0 (ed - st) False];
                  lens = (enc_lens d)[b := ed - st];
                  within_bar_events =
                    pad_sequence (py_slice bar_events st ed) (model_enc_seqlen ds) (pad_token ds);
                  row = py_slice within_bar_events 0 (int (model_enc_seqlen ds))
              in if length row = model_enc_seqlen ds
                 then Inr \<lparr>padded_enc_input = (padded_enc_input d)[b := row],
                          enc_padding_mask = mask, enc_lens = lens\<rparr>
                 else Inl ValueError
         else Inl IndexError)"

fun enc_loop ::
  "dataset \<Rightarrow> nat list \<Rightarrow> (int \<times> int) list \<Rightarrow> nat \<Rightarrow> enc_data \<Rightarrow> error + enc_data" where
  "enc_loop ds bar_events [] b d = Inr d"
| "enc_loop ds bar_events (sted # rest) b d =
     ebind (enc_step ds bar_events b sted d) (\<lambda>d'. enc_loop ds bar_events rest (Suc b) d')"

definition enc_assertion :: error where
  "enc_assertion = AssertionError ''len(bar_positions) == self.model_max_bars + 1''"

definition get_encoder_input_data :: "dataset \<Rightarrow> int list \<Rightarrow> nat list \<Rightarrow> error + enc_data" where
  "get_encoder_input_data ds bar_positions bar_events =
     (if length bar_positions = model_max_bars ds + 1
      then enc_loop ds bar_events
             (zip (py_slice bar_positions 0 (- 1)) (py_slice_from bar_positions 1)) 0
             \<lparr>padded_enc_input =
                replicate (model_max_bars ds) (replicate (model_enc_seqlen ds) (pad_token ds)),
              enc_padding_mask =
                map (\<lambda>row. assign_slice row 0 2 False)
                  (replicate (model_max_bars ds) (replicate (model_enc_seqlen ds) True)),
              enc_lens = replicate (model_max_bars ds) 0\<rparr>
      else Inl enc_assertion)"

subsection \<open>One sample: \<^verbatim>\<open>__getitem__\<close>\<close>

text \<open>
  The returned dictionary, without \<^verbatim>\<open>piece_id\<close> (the number in the file name); the
  key \<^verbatim>\<open>k\<close> is the field \<open>s_k\<close>.
\<close>

record sample =
  s_id :: nat
  s_st_bar_id :: int
  s_bar_pos :: "int list"
  s_enc_input :: "nat list list"
  s_dec_input :: "nat list"
  s_dec_target :: "nat list"
  s_polyph_cls :: "int list"
  s_rhymfreq_cls :: "int list"
  s_polyph_cls_bar :: "int list"
  s_rhymfreq_cls_bar :: "int list"
  s_length :: nat
  s_enc_padding_mask :: "bool list list"
  s_enc_length :: "int list"
  s_enc_n_bars :: nat

text \<open>
  The labels of the window and their expansion, or the four lists \<^verbatim>\<open>[0]\<close> when
  attribute classes are off.
\<close>

definition getitem_labels ::
  "dataset \<Rightarrow> nat \<Rightarrow> int \<Rightarrow> int list
     \<Rightarrow> error + (int list \<times> int list) \<times> (int list \<times> int list)" where
  "getitem_labels ds idx st_bar picked_bar_pos =
     (if use_attr_cls ds
      then ebind (get_attr_classes ds idx st_bar) (\<lambda>cls.
           ebind (expand_labels ds picked_bar_pos (fst cls) (snd cls)) (\<lambda>expanded.
             Inr (cls, expanded)))
      else Inr (([0], [0]), ([0], [0])))"

text \<open>
  \<^verbatim>\<open>__getitem__\<close> after sampling and augmentation: labels, token conversion, the final
  boundary \<^verbatim>\<open>len(bar_tokens)\<close>, the encoder arrays and the shifted decoder pair.
\<close>

definition getitem_build ::
  "dataset \<Rightarrow> nat \<Rightarrow> raw_event list \<Rightarrow> int \<Rightarrow> int list \<Rightarrow> nat \<Rightarrow> error + sample" where
  "getitem_build ds idx bar_events st_bar picked_bar_pos n_bars =
     ebind (getitem_labels ds idx st_bar picked_bar_pos) (\<lambda>labels.
     ebind (convert_event bar_events (event2idx ds)) (\<lambda>bar_tokens.
       let bar_pos' = picked_bar_pos @ [int (length bar_tokens)]
       in ebind (get_encoder_input_data ds bar_pos' bar_tokens) (\<lambda>enc.
            let len = length bar_tokens;
                inp = (if pad_to_same ds
                       then pad_sequence bar_tokens (model_dec_seqlen ds + 1) (pad_token ds)
                       else pad_sequence bar_tokens (length bar_tokens + 1) (dec_end_pad_value ds));
                target = py_slice_from inp 1;
                inp = py_slice inp 0 (- 1)
            in if length inp = length target
               then Inr \<lparr>s_id = idx, s_st_bar_id = st_bar, s_bar_pos = bar_pos',
                         s_enc_input = padded_enc_input enc,
                         s_dec_input = py_slice inp 0 (int (model_dec_seqlen ds)),
                         s_dec_target = py_slice target 0 (int (model_dec_seqlen ds)),
                         s_polyph_cls = fst (snd labels), s_rhymfreq_cls = snd (snd labels),
                         s_polyph_cls_bar = fst (fst labels),
                         s_rhymfreq_cls_bar = snd (fst labels),
                         s_length = min len (model_dec_seqlen ds),
                         s_enc_padding_mask = enc_padding_mask enc,
                         s_enc_length = enc_lens enc, s_enc_n_bars = n_bars\<rparr>
               else Inl (AssertionError ''len(inp) == len(target)''))))"

text \<open>
  \<^verbatim>\<open>__getitem__\<close>: \<open>r\<close> is the random number for the start bar, \<open>rnd\<close> the random
  source of the augmenter. \<open>None\<close> is a call that never returns.
\<close>

definition getitem ::
  "(string \<Rightarrow> int option) \<Rightarrow> dataset \<Rightarrow> nat \<Rightarrow> (nat \<Rightarrow> nat) \<Rightarrow> nat \<Rightarrow> (error + sample) option" where
  "getitem int_of_str ds r rnd idx =
     (case get_sample_from_file ds r idx of
        Inl e \<Rightarrow> Some (Inl e)
      | Inr (bar_events, st_bar, picked_bar_pos, n_bars) \<Rightarrow>
          (case (if do_augment ds then pitch_augment int_of_str ds rnd bar_events
                 else Some (Inr bar_events)) of
             None \<Rightarrow> None
           | Some (Inl e) \<Rightarrow> Some (Inl e)
           | Some (Inr bar_events') \<Rightarrow>
               Some (getitem_build ds idx bar_events' st_bar picked_bar_pos n_bars)))"

subsection \<open>Example pieces\<close>

text \<open>
  A piece of two bars of three tokens each, with the per-bar labels 1, 2 (polyphony) and
  3, 4 (rhythm), in a dataset of two-bar windows, four tokens per encoder row and eight
  decoder positions, without augmentation. Its stored boundary list \<open>[0, 3]\<close> is
  normalized to \<open>[0, 3, 6]\<close>.
\<close>

definition two_bar_events :: "raw_event list" where
  "two_bar_events =
     [\<lparr>ev_name = ''Bar'', ev_value = NoneV\<rparr>,
      \<lparr>ev_name = ''Note_Pitch'', ev_value = IntV 60\<rparr>,
      \<lparr>ev_name = ''Note_Pitch'', ev_value = IntV 62\<rparr>,
      \<lparr>ev_name = ''Bar'', ev_value = NoneV\<rparr>,
      \<lparr>ev_name = ''Note_Pitch'', ev_value = IntV 64\<rparr>,
      \<lparr>ev_name = ''EOS'', ev_value = NoneV\<rparr>]"

definition demo_vocab :: "(string \<times> nat) list" where
  "demo_vocab = [(''Bar_None'', 0), (''EOS_None'', 1), (''Note_Pitch_60'', 2),
     (''Note_Pitch_62'', 3), (''Note_Pitch_64'', 4)]"

definition two_bar_dataset :: dataset where
  "two_bar_dataset =
     \<lparr>event2idx = demo_vocab, pad_token = 5, pieces = [([0, 3], two_bar_events)],
      polyph_store = [[1, 2]], rhythm_store = [[3, 4]], piece_bar_pos = [[0, 3, 6]],
      model_enc_seqlen = 4, model_dec_seqlen = 8, model_max_bars = 2,
      do_augment = False, augment_range = [- 6, - 5, - 4, - 3, - 2, - 1, 0, 1, 2, 3, 4, 5, 6],
      min_pitch = 22, max_pitch = 107, pad_to_same = True, use_attr_cls = True,
      appoint_st_bar = None, dec_end_pad_value = 5\<rparr>"

definition two_bar_sample :: sample where
  "two_bar_sample =
     \<lparr>s_id = 0, s_st_bar_id = 0, s_bar_pos = [0, 3, 6],
      s_enc_input = [[0, 2, 3, 5], [0, 4, 1, 5]],
      s_dec_input = [0, 2, 3, 0, 4, 1, 5, 5],
      s_dec_target = [2, 3, 0, 4, 1, 5, 5, 5],
      s_polyph_cls = [1, 1, 1, 0, 0, 0, 0, 0],
      s_rhymfreq_cls = [3, 3, 3, 0, 0, 0, 0, 0],
      s_polyph_cls_bar = [1, 2], s_rhymfreq_cls_bar = [3, 4],
      s_length = 6,
      s_enc_padding_mask = [[False, False, False, True], [False, False, False, True]],
      s_enc_length = [3, 3], s_enc_n_bars = 2\<rparr>"

text \<open>
  A piece of one bar of five tokens (stored boundary list \<open>[0]\<close>, normalized to
  \<open>[0, 5]\<close>) in a dataset with the default window of 16 bars.
\<close>

definition one_bar_events :: "raw_event list" where
  "one_bar_events =
     [\<lparr>ev_name = ''Bar'', ev_value = NoneV\<rparr>,
      \<lparr>ev_name = ''Note_Pitch'', ev_value = IntV 60\<rparr>,
      \<lparr>ev_name = ''Note_Pitch'', ev_value = IntV 62\<rparr>,
      \<lparr>ev_name = ''Note_Pitch'', ev_value = IntV 64\<rparr>,
      \<lparr>ev_name = ''EOS'', ev_value = NoneV\<rparr>]"

definition one_bar_dataset :: dataset where
  "one_bar_dataset =
     default_dataset\<lparr>event2idx := demo_vocab, pad_token := 5,
       pieces := [([0], one_bar_events)], polyph_store := [[1]], rhythm_store := [[3]],
       piece_bar_pos := [[0, 5]]\<rparr>"

text \<open>
  The two-bar dataset with the start bar \<open>-1\<close> appointed. And a piece of three tokens
  whose stored boundary list \<open>[5, 0]\<close> is not in order (it is normalized to
  \<open>[5, 0, 3]\<close>), in a dataset of two-bar windows with the start bar \<open>-2\<close> appointed.
\<close>

definition late_start_dataset :: dataset where
  "late_start_dataset = two_bar_dataset\<lparr>appoint_st_bar := Some (- 1)\<rparr>"

definition crossed_events :: "raw_event list" where
  "crossed_events =
     [\<lparr>ev_name = ''Bar'', ev_value = NoneV\<rparr>,
      \<lparr>ev_name = ''Note_Pitch'', ev_value = IntV 60\<rparr>,
      \<lparr>ev_name = ''EOS'', ev_value = NoneV\<rparr>]"

definition crossed_dataset :: dataset where
  "crossed_dataset =
     two_bar_dataset\<lparr>pieces := [([5, 0], crossed_events)], piece_bar_pos := [[5, 0, 3]],
       appoint_st_bar := Some (- 2)\<rparr>"

subsection \<open>Python sequences\<close>

lemma ebind_Inr [simp]: "ebind (Inr x) f = f x"
  by (simp add: ebind_def)

lemma ebind_Inl [simp]: "ebind (Inl e) f = Inl e"
  by (simp add: ebind_def)

lemma ebind_eq_Inr: "ebind m f = Inr y \<longleftrightarrow> (\<exists>x. m = Inr x \<and> f x = Inr y)"
  by (cases m) simp_all

lemma py_index_last: "py_index xs (- 1) = (if xs = [] then Inl IndexError else Inr (last xs))"
  by (cases xs rule: rev_cases) (simp_all add: py_index_def Let_def nat_add_distrib nth_append)

lemma py_slice_butlast: "py_slice xs 0 (- 1) = butlast xs"
proof -
  have "nat (max 0 (int (length xs) - 1)) = length xs - 1" by (cases xs) simp_all
  then show ?thesis
    by (simp add: py_slice_def slice_bound_def butlast_conv_take)
qed

lemma ebind_eq_Inl: "ebind m f = Inl e \<longleftrightarrow> m = Inl e \<or> (\<exists>x. m = Inr x \<and> f x = Inl e)"
  by (cases m) simp_all

lemma py_index_Inl: "py_index xs i = Inl e \<Longrightarrow> e = IndexError"
  by (auto simp: py_index_def Let_def split: if_splits)

lemma py_index_nat: "i < length xs \<Longrightarrow> py_index xs (int i) = Inr (xs ! i)"
  by (simp add: py_index_def)

lemma random_choice_Inl: "random_choice r xs = Inl e \<Longrightarrow> e = IndexError"
  by (auto simp: random_choice_def split: if_splits)

lemma dict_get_Inl: "dict_get d k = Inl e \<Longrightarrow> e = KeyError"
  by (auto simp: dict_get_def split: option.splits)

lemma emap_Inl: "emap f xs = Inl e \<Longrightarrow> \<exists>x \<in> set xs. f x = Inl e"
  by (induction xs) (auto simp: ebind_eq_Inl)


lemma slice_bound_le: "slice_bound n i \<le> n"
  by (auto simp: slice_bound_def)

lemma slice_bound_0: "slice_bound n 0 = 0"
  by (simp add: slice_bound_def)

lemma slice_bound_nat: "slice_bound n (int k) = min n k"
  by (simp add: slice_bound_def)

lemma assign_prefix: "assign_slice row 0 k v
    = replicate (slice_bound (length row) k) v @ drop (slice_bound (length row) k) row"
  by (simp add: assign_slice_def slice_bound_0 Let_def)

lemma length_assign_prefix: "length (assign_slice row 0 k v) = length row"
  using slice_bound_le [of "length row" k] by (simp add: assign_prefix)

lemma nth_assign_prefix:
  "c < length row \<Longrightarrow>
     assign_slice row 0 k v ! c = (if c < slice_bound (length row) k then v else row ! c)"
  using slice_bound_le [of "length row" k] by (auto simp: assign_prefix nth_append)

lemma py_slice_take: "py_slice xs 0 (int n) = take n xs"
  by (cases "n \<le> length xs") (simp_all add: py_slice_def slice_bound_0 slice_bound_nat)

lemma length_padded_row: "length (py_slice (pad_sequence xs n p) 0 (int n)) = n"
  by (auto simp: py_slice_take pad_sequence_def)


section \<open>Properties\<close>

subsection \<open>Vocabulary\<close>

lemma digit_char_inj: "a < 10 \<Longrightarrow> b < 10 \<Longrightarrow> digit_char a = digit_char b \<Longrightarrow> a = b"
proof -
  assume a: "a < 10" and b: "b < 10" and e: "digit_char a = digit_char b"
  have d: "distinct ''0123456789''" by simp
  have "length ''0123456789'' = 10" by simp
  with a b e d show ?thesis
    unfolding digit_char_def by (metis nth_eq_iff_index_eq)
qed

lemma format_nat_small: "n < 10 \<Longrightarrow> format_nat n = [digit_char n]"
  by (simp add: format_nat.simps)

lemma format_nat_big:
  "\<not> n < 10 \<Longrightarrow> format_nat n = format_nat (n div 10) @ [digit_char (n mod 10)]"
  by (subst format_nat.simps) simp

lemma format_nat_nonempty: "format_nat n \<noteq> []"
  by (cases "n < 10") (simp_all add: format_nat_small format_nat_big)

lemma format_nat_inj: "format_nat n = format_nat m \<Longrightarrow> n = m"
proof (induction n arbitrary: m rule: format_nat.induct)
  case (1 n)
  show ?case
  proof (cases "n < 10")
    case True
    note n = this
    show ?thesis
    proof (cases "m < 10")
      case True
      with n "1.prems" show ?thesis
        by (simp add: format_nat_small digit_char_inj)
    next
      case False
      with n "1.prems" format_nat_nonempty [of "m div 10"] show ?thesis
        by (simp add: format_nat_small format_nat_big)
    qed
  next
    case False
    note n = this
    show ?thesis
    proof (cases "m < 10")
      case True
      with n "1.prems" format_nat_nonempty [of "n div 10"] show ?thesis
        by (simp add: format_nat_small format_nat_big)
    next
      case False
      with n "1.prems" have e: "format_nat (n div 10) = format_nat (m div 10)"
        and d: "digit_char (n mod 10) = digit_char (m mod 10)"
        by (simp_all add: format_nat_big)
      from n have n10: "10 \<le> n" by simp
      from "1.IH" [OF n10 e] have "n div 10 = m div 10" .
      moreover from d have "n mod 10 = m mod 10" by (auto intro: digit_char_inj)
      ultimately show ?thesis by (metis div_mult_mod_eq)
    qed
  qed
qed

lemma distinct_prefixed: "distinct xs \<Longrightarrow> distinct (map (\<lambda>i. p @ format_nat i) xs)"
  by (auto simp: distinct_map inj_on_def dest: format_nat_inj)

lemma key_tag_prefixed:
  "5 < length p \<Longrightarrow> x \<in> set (map (\<lambda>i. p @ format_nat i) xs) \<Longrightarrow> key_tag x = (p ! 0, p ! 5)"
  by (auto simp: key_tag_def nth_append)

lemma disjoint_by_tag:
  assumes "\<And>x. x \<in> set xs \<Longrightarrow> key_tag x = a" and "\<And>x. x \<in> set ys \<Longrightarrow> key_tag x = b" and "a \<noteq> b"
  shows "set xs \<inter> set ys = {}"
  using assms by fastforce

lemma tag_note_on: "x \<in> set note_on_keys \<Longrightarrow> key_tag x = (CHR ''n'', CHR ''o'')"
  unfolding note_on_keys_def by (drule key_tag_prefixed [rotated]) simp_all
lemma tag_note_duration: "x \<in> set note_duration_keys \<Longrightarrow> key_tag x = (CHR ''n'', CHR ''d'')"
  unfolding note_duration_keys_def by (drule key_tag_prefixed [rotated]) simp_all
lemma tag_note_velocity: "x \<in> set note_velocity_keys \<Longrightarrow> key_tag x = (CHR ''n'', CHR ''v'')"
  unfolding note_velocity_keys_def by (drule key_tag_prefixed [rotated]) simp_all
lemma tag_position: "x \<in> set position_keys \<Longrightarrow> key_tag x = (CHR ''p'', CHR ''i'')"
  unfolding position_keys_def by (drule key_tag_prefixed [rotated]) simp_all
lemma tag_tempo: "x \<in> set tempo_keys \<Longrightarrow> key_tag x = (CHR ''t'', CHR ''_'')"
  unfolding tempo_keys_def by (drule key_tag_prefixed [rotated]) simp_all

lemma tag_bar_eos: "x \<in> set [''bar'', ''eos''] \<Longrightarrow> fst (key_tag x) \<in> {CHR ''b'', CHR ''e''}"
  by (auto simp: key_tag_def)

lemma remi_keys_groups:
  "remi_keys = [''bar'', ''eos''] @ note_on_keys @ note_duration_keys @ note_velocity_keys
     @ position_keys @ tempo_keys"
  by (simp only: remi_keys_def note_on_keys_def note_duration_keys_def note_velocity_keys_def
        position_keys_def tempo_keys_def)

lemma distinct_groups:
  "distinct note_on_keys" "distinct note_duration_keys" "distinct note_velocity_keys"
  "distinct position_keys" "distinct tempo_keys"
  unfolding note_on_keys_def note_duration_keys_def note_velocity_keys_def
    position_keys_def tempo_keys_def
  by (rule distinct_prefixed, simp)+

lemma disjoint_groups:
  "set note_on_keys \<inter> set note_duration_keys = {}"
  "set note_on_keys \<inter> set note_velocity_keys = {}"
  "set note_on_keys \<inter> set position_keys = {}"
  "set note_on_keys \<inter> set tempo_keys = {}"
  "set note_duration_keys \<inter> set note_velocity_keys = {}"
  "set note_duration_keys \<inter> set position_keys = {}"
  "set note_duration_keys \<inter> set tempo_keys = {}"
  "set note_velocity_keys \<inter> set position_keys = {}"
  "set note_velocity_keys \<inter> set tempo_keys = {}"
  "set position_keys \<inter> set tempo_keys = {}"
  by (rule disjoint_by_tag, (erule tag_note_on tag_note_duration tag_note_velocity tag_position tag_tempo)+, simp)+

lemma bar_eos_not_in_groups:
  "x \<in> set [''bar'', ''eos''] \<Longrightarrow> x \<notin> set note_on_keys \<and> x \<notin> set note_duration_keys
     \<and> x \<notin> set note_velocity_keys \<and> x \<notin> set position_keys \<and> x \<notin> set tempo_keys"
  using tag_bar_eos [of x] tag_note_on [of x] tag_note_duration [of x] tag_note_velocity [of x]
    tag_position [of x] tag_tempo [of x]
  by fastforce

lemma distinct_remi_keys: "distinct remi_keys"
proof -
  have a: "distinct [''bar'', ''eos'']" by simp
  have b: "set [''bar'', ''eos''] \<inter> set (note_on_keys @ note_duration_keys @ note_velocity_keys
     @ position_keys @ tempo_keys) = {}"
    using bar_eos_not_in_groups by (simp only: set_append) blast
  have c: "distinct (note_on_keys @ note_duration_keys @ note_velocity_keys
     @ position_keys @ tempo_keys)"
    using distinct_groups disjoint_groups by (simp only: distinct_append set_append) blast
  show ?thesis
    unfolding remi_keys_groups using a b c by (simp only: distinct_append)
qed

lemma update_fresh: "k \<notin> fst ` set d \<Longrightarrow> AList.update k v d = d @ [(k, v)]"
  by (induction d) auto

lemma upt_shift_Cons: "[idx..<idx + Suc n] = idx # [Suc idx..<Suc idx + n]"
  by (subst upt_conv_Cons) simp_all

lemma index_range_fresh:
  "distinct (map fst d @ map (\<lambda>i. p @ format_nat i) xs) \<Longrightarrow>
   index_range p xs (d, idx) =
     (d @ zip (map (\<lambda>i. p @ format_nat i) xs) [idx..<idx + length xs], idx + length xs)"
proof (induction xs arbitrary: d idx)
  case Nil
  then show ?case by simp
next
  case (Cons x xs)
  from Cons.prems have fresh: "p @ format_nat x \<notin> fst ` set d" by auto
  from Cons.prems have
    d': "distinct (map fst (d @ [(p @ format_nat x, idx)]) @ map (\<lambda>i. p @ format_nat i) xs)"
    by auto
  show ?case
    using Cons.IH [OF d', of "Suc idx"] fresh upt_shift_Cons [of idx "length xs"]
    by (simp add: update_fresh)
qed

lemma enumerate_keys_append:
  "enumerate_keys (ks @ g) = enumerate_keys ks @ zip g [length ks..<length ks + length g]"
proof -
  have "[0..<length ks + length g] = [0..<length ks] @ [length ks..<length ks + length g]"
    by (rule upt_add_eq_append) simp
  then show ?thesis
    unfolding enumerate_keys_def by (simp add: zip_append)
qed

lemma index_range_enumerate:
  assumes "distinct (ks @ g)" and "g = map (\<lambda>i. p @ format_nat i) xs" and "n = length ks"
  shows "index_range p xs (enumerate_keys ks, n) = (enumerate_keys (ks @ g), length (ks @ g))"
proof -
  have "map fst (enumerate_keys ks) = ks" by (simp add: enumerate_keys_def)
  with assms(1,2) have "distinct (map fst (enumerate_keys ks) @ map (\<lambda>i. p @ format_nat i) xs)"
    by simp
  from index_range_fresh [OF this] assms(2,3) show ?thesis
    by (simp add: enumerate_keys_append)
qed

lemma remi_indexer_dict_enumerate: "remi_indexer_dict = enumerate_keys remi_keys"
proof -
  let ?k1 = "[''bar'', ''eos'']"
  let ?k2 = "?k1 @ note_on_keys"
  let ?k3 = "?k2 @ note_duration_keys"
  let ?k4 = "?k3 @ note_velocity_keys"
  let ?k5 = "?k4 @ position_keys"
  let ?k6 = "?k5 @ tempo_keys"
  have k6: "remi_keys = ?k6" by (simp only: remi_keys_groups append_assoc)
  have d6: "distinct ?k6" using distinct_remi_keys by (simp only: k6)
  then have d5: "distinct ?k5" by (simp only: distinct_append [of ?k5 tempo_keys])
  then have d4: "distinct ?k4" by (simp only: distinct_append [of ?k4 position_keys])
  then have d3: "distinct ?k3" by (simp only: distinct_append [of ?k3 note_velocity_keys])
  then have d2: "distinct ?k2" by (simp only: distinct_append [of ?k2 note_duration_keys])
  have s1: "(AList.update ''eos'' (0 + 1) (AList.update ''bar'' 0 []), 0 + 1 + 1)
      = (enumerate_keys ?k1, length ?k1)"
    by (simp add: enumerate_keys_def)
  have s2: "index_range ''note_on_'' [0..<128] (enumerate_keys ?k1, length ?k1)
      = (enumerate_keys ?k2, length ?k2)"
    by (rule index_range_enumerate [OF d2 note_on_keys_def refl])
  have s3: "index_range ''note_duration_'' [1..<65] (enumerate_keys ?k2, length ?k2)
      = (enumerate_keys ?k3, length ?k3)"
    by (rule index_range_enumerate [OF d3 note_duration_keys_def refl])
  have s4: "index_range ''note_velocity_'' [0..<32] (enumerate_keys ?k3, length ?k3)
      = (enumerate_keys ?k4, length ?k4)"
    by (rule index_range_enumerate [OF d4 note_velocity_keys_def refl])
  have s5: "index_range ''position_'' [0..<24] (enumerate_keys ?k4, length ?k4)
      = (enumerate_keys ?k5, length ?k5)"
    by (rule index_range_enumerate [OF d5 position_keys_def refl])
  have s6: "index_range ''tempo_'' [30..<210] (enumerate_keys ?k5, length ?k5)
      = (enumerate_keys ?k6, length ?k6)"
    by (rule index_range_enumerate [OF d6 tempo_keys_def refl])
  show ?thesis
    unfolding remi_indexer_dict_def Let_def fst_conv snd_conv
    by (simp only: s1 s2 s3 s4 s5 s6 k6 fst_conv)
qed

lemma length_remi_keys: "length remi_keys = 430"
  by (simp add: remi_keys_groups note_on_keys_def note_duration_keys_def note_velocity_keys_def
        position_keys_def tempo_keys_def)

lemma enumerate_keys_fst: "map fst (enumerate_keys ks) = ks"
  by (simp add: enumerate_keys_def)

lemma enumerate_keys_snd: "map snd (enumerate_keys ks) = [0..<length ks]"
  by (simp add: enumerate_keys_def)

lemma enumerate_keys_mem: "(s, c) \<in> set (enumerate_keys ks) \<longleftrightarrow> c < length ks \<and> ks ! c = s"
  unfolding enumerate_keys_def by (auto simp: set_zip)

lemma map_of_enumerate_keys:
  "distinct ks \<Longrightarrow> map_of (enumerate_keys ks) s = Some c \<longleftrightarrow> c < length ks \<and> ks ! c = s"
  using map_of_eq_Some_iff [of "enumerate_keys ks" s c]
  by (simp add: enumerate_keys_fst enumerate_keys_mem)

lemma map_of_swapped_enumerate_keys:
  "map_of (map (\<lambda>(k, v). (v, k)) (enumerate_keys ks)) c = Some s \<longleftrightarrow> c < length ks \<and> ks ! c = s"
proof -
  let ?inv = "map (\<lambda>(k, v). (v, k)) (enumerate_keys ks)"
  have f: "map fst ?inv = [0..<length ks]"
    unfolding enumerate_keys_def by (simp add: split_def comp_def zip_map_fst_snd map_snd_zip)
  then have "distinct (map fst ?inv)" by simp
  from map_of_eq_Some_iff [OF this, of c s]
  have "map_of ?inv c = Some s \<longleftrightarrow> (c, s) \<in> set ?inv" .
  also have "\<dots> \<longleftrightarrow> (s, c) \<in> set (enumerate_keys ks)" by auto
  finally show ?thesis by (simp add: enumerate_keys_mem)
qed

text \<open>
  C2: the vocabulary indexer is built without error; its keys, in insertion order, are
  bar, eos, the 128 note-on ids, the 64 note-duration ids 1..64, the 32 note-velocity ids
  0..31, the 24 position ids 0..23 and the 180 tempo ids 30..209, with the consecutive
  codes 0, 1, 2, ...; it has V = 2 + 128 + 64 + 32 + 24 + 180 = 430 entries; encoding and
  decoding are inverse to each other (a bijection between the keys and the codes below
  V), and for every code in [0, V) decoding then re-encoding returns the code.
\<close>

theorem get_remi_indexer_bijection:
  "\<exists>b. get_remi_indexer = Inr b
     \<and> map fst (forward b) = remi_keys
     \<and> map snd (forward b) = [0..<2 + 128 + 64 + 32 + 24 + 180]
     \<and> length (forward b) = 430
     \<and> (\<forall>s c. encode b s = Some c \<longleftrightarrow> decode b c = Some s)
     \<and> (\<forall>c. c < 430 \<longrightarrow> (\<exists>s. decode b c = Some s \<and> encode b s = Some c))
     \<and> (\<forall>c s. decode b c = Some s \<longrightarrow> c < 430)"
proof -
  let ?d = "enumerate_keys remi_keys"
  let ?b = "\<lparr>forward = ?d, inverse = map (\<lambda>(k, v). (v, k)) ?d\<rparr>"
  have "distinct (map snd ?d)" by (simp add: enumerate_keys_snd)
  then have g: "get_remi_indexer = Inr ?b"
    by (simp add: get_remi_indexer_def make_bidict_def remi_indexer_dict_enumerate)
  have enc: "\<And>s c. encode ?b s = Some c \<longleftrightarrow> c < 430 \<and> remi_keys ! c = s"
    using map_of_enumerate_keys [OF distinct_remi_keys] by (simp add: encode_def length_remi_keys)
  have dec: "\<And>s c. decode ?b c = Some s \<longleftrightarrow> c < 430 \<and> remi_keys ! c = s"
    using map_of_swapped_enumerate_keys [of remi_keys] by (simp add: decode_def length_remi_keys)
  have 1: "map fst (forward ?b) = remi_keys" by (simp add: enumerate_keys_fst)
  have 2: "map snd (forward ?b) = [0..<2 + 128 + 64 + 32 + 24 + 180]"
    by (simp add: enumerate_keys_snd length_remi_keys)
  have 3: "length (forward ?b) = 430"
    by (simp add: enumerate_keys_def length_remi_keys)
  have 4: "\<forall>s c. encode ?b s = Some c \<longleftrightarrow> decode ?b c = Some s"
    by (simp only: enc dec) simp
  have 5: "\<forall>c. c < 430 \<longrightarrow> (\<exists>s. decode ?b c = Some s \<and> encode ?b s = Some c)"
    by (simp only: enc dec) simp
  have 6: "\<forall>c s. decode ?b c = Some s \<longrightarrow> c < 430"
    by (simp only: dec) simp
  show ?thesis
    by (rule exI [of _ ?b]) (intro conjI g 1 2 3 4 5 6)
qed


text \<open>The code 62 is below V: it decodes to a key that encodes back to 62.\<close>

theorem get_remi_indexer_bijection_witness:
  "\<exists>b. get_remi_indexer = Inr b \<and> (62::nat) < 430
     \<and> (\<exists>s. decode b 62 = Some s \<and> encode b s = Some 62)"
proof -
  obtain b where g: "get_remi_indexer = Inr b"
    and r: "\<forall>c. c < 430 \<longrightarrow> (\<exists>s. decode b c = Some s \<and> encode b s = Some c)"
    using get_remi_indexer_bijection by (elim exE conjE) (rule that; assumption)
  have l: "(62::nat) < 430" by simp
  from r [rule_format, OF l] have "\<exists>s. decode b 62 = Some s \<and> encode b s = Some 62" .
  with g l show ?thesis by (intro exI [of _ b] conjI)
qed

lemma remi_keys_62: "remi_keys ! 62 = ''note_on_60''"
proof -
  have "remi_keys ! 62 = note_on_keys ! 60"
    by (simp add: remi_keys_groups nth_append note_on_keys_def)
  also have "\<dots> = ''note_on_'' @ format_nat 60"
    by (simp add: note_on_keys_def)
  also have "\<dots> = ''note_on_60''"
    by (simp add: format_nat.simps digit_char_def)
  finally show ?thesis .
qed


subsection \<open>Rounding to a double\<close>

lemma binade_le:
  assumes "0 < x"
  shows "2 powi binade x \<le> x"
proof (cases "1 \<le> x")
  case True
  then have f: "0 < \<lfloor>x\<rfloor>" by linarith
  from bitlen_bounds [OF f] have b: "2 ^ nat (bitlen \<lfloor>x\<rfloor> - 1) \<le> \<lfloor>x\<rfloor>" by simp
  from f have "1 \<le> bitlen \<lfloor>x\<rfloor>" by (auto simp: bitlen_alt_def)
  then have "(2::rat) powi (bitlen \<lfloor>x\<rfloor> - 1) = 2 ^ nat (bitlen \<lfloor>x\<rfloor> - 1)"
    by (simp add: power_int_def)
  also have "\<dots> = of_int (2 ^ nat (bitlen \<lfloor>x\<rfloor> - 1))" by simp
  also have "\<dots> \<le> of_int \<lfloor>x\<rfloor>" using b by (simp only: of_int_le_iff)
  also have "\<dots> \<le> x" by simp
  finally show ?thesis using True by (simp add: binade_def)
next
  case False
  let ?n = "\<lceil>1 / x\<rceil>"
  let ?k = "bitlen (?n - 1)"
  from False assms have "1 < 1 / x" by simp
  then have n: "2 \<le> ?n" by linarith
  then have m: "0 < ?n - 1" by simp
  from bitlen_bounds [OF m] have "?n - 1 < 2 ^ nat ?k" by simp
  then have "?n \<le> 2 ^ nat ?k" by simp
  then have a: "(of_int ?n :: rat) \<le> of_int (2 ^ nat ?k)" by (rule iffD2 [OF of_int_le_iff])
  have b: "(of_int (2 ^ nat ?k) :: rat) = 2 ^ nat ?k" by simp
  have c: "1 / x \<le> of_int ?n" by (rule le_of_int_ceiling)
  from a b c have "1 / x \<le> 2 ^ nat ?k" by linarith
  with assms have "1 / 2 ^ nat ?k \<le> x"
    by (simp add: field_simps)
  moreover have "(2::rat) powi (- ?k) = 1 / 2 ^ nat ?k"
    using bitlen_nonneg [of "?n - 1"] by (simp add: power_int_def field_simps)
  ultimately show ?thesis using False by (simp add: binade_def)
qed

lemma binade_less:
  assumes "0 < x"
  shows "x < 2 powi (binade x + 1)"
proof (cases "1 \<le> x")
  case True
  then have f: "0 < \<lfloor>x\<rfloor>" by linarith
  from bitlen_bounds [OF f] have b: "\<lfloor>x\<rfloor> < 2 ^ nat (bitlen \<lfloor>x\<rfloor>)" by simp
  then have "\<lfloor>x\<rfloor> + 1 \<le> 2 ^ nat (bitlen \<lfloor>x\<rfloor>)" by simp
  then have "(of_int (\<lfloor>x\<rfloor> + 1) :: rat) \<le> of_int (2 ^ nat (bitlen \<lfloor>x\<rfloor>))"
    by (simp only: of_int_le_iff)
  moreover have "x < of_int (\<lfloor>x\<rfloor> + 1)" by linarith
  ultimately have "x < 2 ^ nat (bitlen \<lfloor>x\<rfloor>)" by simp
  moreover have "(2::rat) powi (bitlen \<lfloor>x\<rfloor>) = 2 ^ nat (bitlen \<lfloor>x\<rfloor>)"
    using bitlen_nonneg [of "\<lfloor>x\<rfloor>"] by (simp add: power_int_def)
  ultimately show ?thesis using True by (simp add: binade_def)
next
  case False
  let ?n = "\<lceil>1 / x\<rceil>"
  let ?k = "bitlen (?n - 1)"
  from False assms have "1 < 1 / x" by simp
  then have n: "2 \<le> ?n" by linarith
  then have m: "0 < ?n - 1" by simp
  then have k1: "1 \<le> ?k" by (auto simp: bitlen_alt_def)
  from bitlen_bounds [OF m] have "2 ^ nat (?k - 1) \<le> ?n - 1" by simp
  then have "(of_int (2 ^ nat (?k - 1)) :: rat) \<le> of_int (?n - 1)" by (simp only: of_int_le_iff)
  moreover have "of_int (?n - 1) < 1 / x" by linarith
  ultimately have "2 ^ nat (?k - 1) < 1 / x" by simp
  with assms have "x < 1 / 2 ^ nat (?k - 1)"
    by (simp add: field_simps)
  moreover have "(2::rat) powi (- ?k + 1) = 1 / 2 ^ nat (?k - 1)"
    using k1 by (simp add: power_int_def field_simps nat_diff_distrib)
  ultimately show ?thesis using False by (simp add: binade_def)
qed

lemma round_half_even_int: "round_half_even (of_int z) = z"
  by (simp add: round_half_even_def)

lemma nearest_error:
  fixes y :: rat and f :: int
  assumes "of_int f \<le> y" "y < of_int f + 1"
  shows "\<bar>of_int (if y - of_int f < 1 / 2 then f
                   else if 1 / 2 < y - of_int f then f + 1
                   else if even f then f else f + 1) - y\<bar> \<le> 1 / 2"
  using assms by (auto simp: abs_if)

lemma round_half_even_error: "\<bar>of_int (round_half_even y) - y\<bar> \<le> 1 / 2"
proof -
  have "of_int \<lfloor>y\<rfloor> \<le> y" "y < of_int \<lfloor>y\<rfloor> + 1" by linarith+
  from nearest_error [OF this] show ?thesis
    by (simp only: round_half_even_def Let_def)
qed


lemma to_float64_error:
  assumes "x \<noteq> 0"
  shows "\<bar>to_float64 x - x\<bar> \<le> 2 powi (binade \<bar>x\<bar> - 53)"
proof -
  define s where "s = 52 - binade \<bar>x\<bar>"
  define P :: rat where "P = 2 powi s"
  define m where "m = round_half_even (\<bar>x\<bar> * P)"
  have P: "0 < P" by (simp add: P_def)
  have fl: "to_float64 x = sgn x * of_int m / P"
    using assms by (simp add: to_float64_def Let_def s_def P_def m_def)
  have "to_float64 x - x = sgn x * ((of_int m - \<bar>x\<bar> * P) / P)"
    using P by (simp add: fl field_simps flip: mult_sgn_abs)
       (metis mult.commute mult_sgn_abs mult.assoc)
  then have "\<bar>to_float64 x - x\<bar> = \<bar>of_int m - \<bar>x\<bar> * P\<bar> / P"
    using assms P by (simp add: abs_mult abs_sgn_eq)
  also have "\<dots> \<le> (1 / 2) / P"
    using round_half_even_error [of "\<bar>x\<bar> * P"] P
    by (intro divide_right_mono) (simp_all add: m_def)
  also have "\<dots> = 2 powi (binade \<bar>x\<bar> - 53)"
  proof -
    have "(2::rat) powi (binade \<bar>x\<bar> - 53) * P = 2 powi ((binade \<bar>x\<bar> - 53) + s)"
      unfolding P_def by (rule power_int_add [symmetric]) simp
    also have "(binade \<bar>x\<bar> - 53) + s = - 1" by (simp add: s_def)
    also have "(2::rat) powi (- 1) = 1 / 2" by (simp add: power_int_minus)
    finally have "(2::rat) powi (binade \<bar>x\<bar> - 53) * P = 1 / 2" .
    with P show ?thesis by (simp add: field_simps)
  qed
  finally show ?thesis .
qed

lemma binade_int_bound:
  assumes "z \<noteq> 0" "\<bar>z\<bar> < 2 ^ 53"
  shows "binade \<bar>of_int z\<bar> \<le> 52"
proof (rule ccontr)
  assume "\<not> binade \<bar>of_int z :: rat\<bar> \<le> 52"
  then have "53 \<le> binade \<bar>of_int z :: rat\<bar>" by simp
  then have "(2::rat) powi 53 \<le> 2 powi binade \<bar>of_int z\<bar>"
    by (intro power_int_increasing) simp_all
  also from assms(1) have "\<dots> \<le> \<bar>of_int z\<bar>" by (intro binade_le) simp
  finally have "(2::rat) ^ 53 \<le> of_int \<bar>z\<bar>" by simp
  then have "(of_int (2 ^ 53) :: rat) \<le> of_int \<bar>z\<bar>" by simp
  then have "2 ^ 53 \<le> \<bar>z\<bar>" by (simp only: of_int_le_iff)
  with assms(2) show False by simp
qed

lemma to_float64_int:
  assumes "\<bar>z\<bar> < 2 ^ 53"
  shows "to_float64 (of_int z) = of_int z"
proof (cases "z = 0")
  case True
  then show ?thesis by (simp add: to_float64_def)
next
  case False
  define s where "s = 52 - binade \<bar>of_int z :: rat\<bar>"
  from binade_int_bound [OF False assms] have s: "0 \<le> s" by (simp add: s_def)
  then have P: "(2::rat) powi s = of_int (2 ^ nat s)" by (simp add: power_int_def)
  have "\<bar>of_int z :: rat\<bar> * 2 powi s = of_int (\<bar>z\<bar> * 2 ^ nat s)"
    by (simp add: P)
  then have r: "round_half_even (\<bar>of_int z :: rat\<bar> * 2 powi s) = \<bar>z\<bar> * 2 ^ nat s"
    by (simp only: round_half_even_int)
  have "to_float64 (of_int z) = sgn (of_int z) * of_int (\<bar>z\<bar> * 2 ^ nat s) / 2 powi s"
    using False r by (simp add: to_float64_def Let_def s_def)
  also have "\<dots> = sgn (of_int z) * \<bar>of_int z\<bar>"
    by (simp add: P)
  also have "\<dots> = of_int z" by (simp add: mult_sgn_abs)
  finally show ?thesis .
qed

lemma ceiling_rat_divide: "\<lceil>(of_int a / of_int b :: rat)\<rceil> = - ((- a) div b)"
proof -
  have "\<lceil>(of_int a / of_int b :: rat)\<rceil> = - \<lfloor>- (of_int a / of_int b :: rat)\<rfloor>"
    by (simp add: ceiling_def)
  also have "- (of_int a / of_int b :: rat) = of_int (- a) / of_int b" by simp
  also have "\<lfloor>(of_int (- a) / of_int b :: rat)\<rfloor> = (- a) div b"
    by (rule floor_divide_of_int_eq)
  finally show ?thesis .
qed

lemma float_quotient_ceiling_pos:
  assumes a: "\<bar>a\<bar> < 2 ^ 53" and b: "0 < b" "b < 2 ^ 53"
  shows "\<lceil>to_float64 (of_int a / of_int b)\<rceil> = \<lceil>(of_int a / of_int b :: rat)\<rceil>"
proof (cases "b dvd a")
  case True
  then obtain k where k: "a = b * k" ..
  with b have x: "(of_int a / of_int b :: rat) = of_int k" by simp
  have "\<bar>a\<bar> = b * \<bar>k\<bar>" using k b by (simp add: abs_mult)
  moreover have "1 * \<bar>k\<bar> \<le> b * \<bar>k\<bar>" using b by (intro mult_right_mono) simp_all
  ultimately have "\<bar>k\<bar> \<le> \<bar>a\<bar>" by simp
  with a have "\<bar>k\<bar> < 2 ^ 53" by simp
  from to_float64_int [OF this] show ?thesis by (simp add: x)
next
  case False
  define x :: rat where "x = of_int a / of_int b"
  define n where "n = a div b"
  define r where "r = a mod b"
  from False b have r: "0 < r" "r < b"
    by (simp_all add: r_def) (metis mod_eq_0_iff_dvd pos_mod_sign less_le)
  have ab: "a = n * b + r" by (simp add: n_def r_def)
  have xn: "x = of_int n + of_int r / of_int b"
    using b by (simp add: x_def ab field_simps)
  have lo: "of_int n + 1 / of_int b \<le> x"
    using r b by (simp add: xn field_simps)
  have hi: "x \<le> of_int n + 1 - 1 / of_int b"
  proof -
    from r have "r + 1 \<le> b" by simp
    then have "(of_int (r + 1) :: rat) \<le> of_int b" by (simp only: of_int_le_iff)
    then have "(of_int r :: rat) / of_int b \<le> (of_int b - 1) / of_int b"
      using b by (intro divide_right_mono) simp_all
    also have "\<dots> = 1 - 1 / of_int b" using b by (simp add: field_simps)
    finally show ?thesis by (simp add: xn)
  qed
  from False have a0: "a \<noteq> 0" by auto
  with b have x0: "x \<noteq> 0" by (simp add: x_def)
  have ax: "\<bar>x\<bar> = of_int \<bar>a\<bar> / of_int b" using b by (simp add: x_def abs_divide)
  have "\<bar>x\<bar> < 2 ^ 53 / of_int b"
  proof -
    from a have "(of_int \<bar>a\<bar> :: rat) < of_int (2 ^ 53)" by (simp only: of_int_less_iff)
    then show ?thesis using b by (simp add: ax divide_strict_right_mono)
  qed
  moreover from x0 have "2 powi binade \<bar>x\<bar> \<le> \<bar>x\<bar>" by (intro binade_le) simp
  ultimately have "(2::rat) powi binade \<bar>x\<bar> < 2 ^ 53 / of_int b" by simp
  then have "(2::rat) powi binade \<bar>x\<bar> / 2 ^ 53 < 1 / of_int b"
    by (simp add: field_simps)
  moreover have "(2::rat) powi (binade \<bar>x\<bar> - 53) = 2 powi binade \<bar>x\<bar> / 2 ^ 53"
    by (simp add: power_int_diff)
  ultimately have e: "\<bar>to_float64 x - x\<bar> < 1 / of_int b"
    using to_float64_error [OF x0] by simp
  have pos: "0 < 1 / (of_int b :: rat)" using b by simp
  from e lo have f1: "of_int n < to_float64 x" unfolding abs_less_iff by linarith
  from e hi have f2: "to_float64 x \<le> of_int n + 1" unfolding abs_less_iff by linarith
  have "\<lceil>to_float64 x\<rceil> = n + 1"
  proof (rule ceiling_unique)
    from f1 show "of_int (n + 1) - 1 < to_float64 x" by simp
    from f2 show "to_float64 x \<le> of_int (n + 1)" by simp
  qed
  moreover have "\<lceil>x\<rceil> = n + 1"
  proof (rule ceiling_unique)
    from lo pos have "of_int n < x" by linarith
    then show "of_int (n + 1) - 1 < x" by simp
    from hi pos have "x \<le> of_int n + 1" by linarith
    then show "x \<le> of_int (n + 1)" by simp
  qed
  ultimately show ?thesis by (simp add: x_def)
qed

lemma float_quotient_ceiling:
  assumes a: "\<bar>a\<bar> < 2 ^ 53" and b: "b \<noteq> 0" "\<bar>b\<bar> < 2 ^ 53"
  shows "\<lceil>to_float64 (of_int a / of_int b)\<rceil> = \<lceil>(of_int a / of_int b :: rat)\<rceil>"
proof (cases "0 < b")
  case True
  with a b show ?thesis by (intro float_quotient_ceiling_pos) simp_all
next
  case False
  with b have nb: "0 < - b" "- b < 2 ^ 53" by simp_all
  from a have na: "\<bar>- a\<bar> < 2 ^ 53" by simp
  have "(of_int a / of_int b :: rat) = of_int (- a) / of_int (- b)" by simp
  with float_quotient_ceiling_pos [OF na nb] show ?thesis by (simp only:)
qed


subsection \<open>Time quantizer and event encoder\<close>

lemma sint_sub_exact:
  fixes a b :: int64
  assumes "\<bar>sint a - sint b\<bar> < 2 ^ 63"
  shows "sint (a - b) = sint a - sint b"
proof -
  have "sint (a - b) = signed_take_bit 63 (sint a - sint b)"
    by (simp add: sint_word_ariths)
  also from assms have "\<dots> = sint a - sint b"
    by (intro signed_take_bit_int_eq_self) auto
  finally show ?thesis .
qed

lemma sint_mult_exact:
  fixes a b :: int64
  assumes "\<bar>sint a * sint b\<bar> < 2 ^ 63"
  shows "sint (a * b) = sint a * sint b"
proof -
  have "sint (a * b) = signed_take_bit 63 (sint a * sint b)"
    by (simp add: sint_word_ariths)
  also from assms have "\<dots> = sint a * sint b"
    by (intro signed_take_bit_int_eq_self) auto
  finally show ?thesis .
qed

lemma sint_eq_0_iff: "sint (w :: int64) = 0 \<longleftrightarrow> w = 0"
  by (metis signed_eq_0_iff)

lemma searchsorted_right_le: "searchsorted_right a v \<le> length a"
  by (simp add: searchsorted_right_def length_takeWhile_le)

lemma searchsorted_right_before:
  "j < searchsorted_right a v \<Longrightarrow> sint (a ! j) \<le> sint v"
  unfolding searchsorted_right_def
  using nth_mem [of j "takeWhile (\<lambda>x. sint x \<le> sint v) a"]
    set_takeWhileD [of "a ! j" "\<lambda>x. sint x \<le> sint v" a]
  by (simp add: takeWhile_nth)

lemma searchsorted_right_at:
  "searchsorted_right a v < length a \<Longrightarrow> sint v < sint (a ! searchsorted_right a v)"
  unfolding searchsorted_right_def
  using nth_length_takeWhile [of "\<lambda>x. sint x \<le> sint v" a] by simp

lemma py_index_mod:
  assumes "- int (length xs) \<le> j" "j < int (length xs)"
  shows "py_index xs j = Inr (xs ! nat (j mod int (length xs)))"
proof (cases "0 \<le> j")
  case True
  with assms show ?thesis by (simp add: py_index_def)
next
  case False
  from False assms have "(j + int (length xs)) mod int (length xs) = j + int (length xs)"
    by (intro mod_pos_pos_trivial) simp_all
  then have "j mod int (length xs) = int (length xs) + j" by (simp add: add.commute)
  with False assms show ?thesis by (simp add: py_index_def)
qed

lemma np_at_nat: "i < length a \<Longrightarrow> np_at a (int i) = sint (a ! i)"
  by (simp add: np_at_def)

lemma float_ceil_div_exact:
  assumes "b \<noteq> 0" "\<bar>a\<bar> < 2 ^ 53" "\<bar>b\<bar> < 2 ^ 53"
  shows "float_ceil_div a b = Inr \<lceil>real_of_int a / real_of_int b\<rceil>"
proof -
  have "\<lceil>to_float64 (to_float64 (of_int a) / to_float64 (of_int b))\<rceil>
      = \<lceil>to_float64 (of_int a / of_int b)\<rceil>"
    using assms by (simp add: to_float64_int)
  also have "\<dots> = \<lceil>(of_int a / of_int b :: rat)\<rceil>"
    using assms by (intro float_quotient_ceiling) simp_all
  also have "\<dots> = \<lceil>real_of_int a / real_of_int b\<rceil>"
    by (simp add: ceiling_divide_eq_div)
  finally show ?thesis using assms(1) by (simp add: float_ceil_div_def)
qed

lemma py_index_0: "py_index xs 0 = (if xs = [] then Inl IndexError else Inr (hd xs))"
  by (cases xs) (simp_all add: py_index_def)

lemma measure_table_unfold:
  "measure_table barlines0 =
     (if barlines0 = [] then Inl IndexError
      else if 1 < length (sort_key sint (if hd barlines0 \<noteq> 0 then 0 # barlines0 else barlines0))
      then Inr (if hd barlines0 \<noteq> 0 then 0 # barlines0 else barlines0,
                sort_key sint (if hd barlines0 \<noteq> 0 then 0 # barlines0 else barlines0))
      else Inl (AssertionError ''len(measure_times) > 1''))"
  by (simp add: measure_table_def py_index_0 Let_def)

lemma measure_table_Inr:
  assumes "measure_table barlines0 = Inr (bt, mt)"
  shows "barlines0 \<noteq> []" "bt = (if hd barlines0 \<noteq> 0 then 0 # barlines0 else barlines0)"
    "mt = sort_key sint bt" "1 < length mt"
proof -
  define bt' where "bt' = (if hd barlines0 \<noteq> 0 then 0 # barlines0 else barlines0)"
  from assms show ne: "barlines0 \<noteq> []"
    by (auto simp: measure_table_unfold split: if_splits)
  then have "measure_table barlines0 =
      (if 1 < length (sort_key sint bt') then Inr (bt', sort_key sint bt')
       else Inl (AssertionError ''len(measure_times) > 1''))"
    by (simp only: measure_table_unfold bt'_def if_False)
  with assms have r0: "1 < length (sort_key sint bt') \<and> bt' = bt \<and> sort_key sint bt' = mt"
    by (cases "1 < length (sort_key sint bt')") auto
  then have r: "1 < length (sort_key sint bt')" "bt = bt'" "mt = sort_key sint bt'"
    by blast+
  from r show "bt = (if hd barlines0 \<noteq> 0 then 0 # barlines0 else barlines0)"
    by (simp only: bt'_def)
  from r show "mt = sort_key sint bt" by simp
  from r show "1 < length mt" by simp
qed

lemma measure_table_set:
  assumes "measure_table barlines0 = Inr (bt, mt)"
  shows "sorted (map sint mt)" "set mt = insert 0 (set barlines0)"
proof -
  note t = measure_table_Inr [OF assms]
  from t(3) show "sorted (map sint mt)" by simp
  from t(1) have "hd barlines0 \<in> set barlines0" by simp
  with t(2,3) show "set mt = insert 0 (set barlines0)" by (auto split: if_splits)
qed

lemma sorted_nonneg_hd:
  assumes s: "sorted (map sint xs)" and nn: "\<forall>x \<in> set xs. 0 \<le> sint x"
    and z: "(0 :: int64) \<in> set xs"
  shows "hd xs = 0"
proof (cases xs)
  case Nil
  with z show ?thesis by simp
next
  case (Cons x ys)
  from s Cons z have "sint x \<le> 0" by auto
  moreover from nn Cons have "0 \<le> sint x" by simp
  ultimately have "sint x = 0" by simp
  then show ?thesis using Cons by (simp add: sint_eq_0_iff)
qed

lemma sort_key_sorted_id: "sorted (map f xs) \<Longrightarrow> sort_key f xs = xs"
  by (induction xs) (auto simp: insort_is_Cons)

lemma measure_table_sorted_input:
  assumes "measure_table barlines0 = Inr (bt, mt)" "sorted (map sint barlines0)"
    "\<forall>b \<in> set barlines0. 0 \<le> sint b"
  shows "mt = (if 0 \<in> set barlines0 then barlines0 else 0 # barlines0)"
proof -
  note t = measure_table_Inr [OF assms(1)]
  show ?thesis
  proof (cases "hd barlines0 = 0")
    case True
    with t(1) have "0 \<in> set barlines0" by (metis hd_in_set)
    with True t(2,3) assms(2) show ?thesis by (simp add: sort_key_sorted_id)
  next
    case False
    have "0 \<notin> set barlines0"
    proof
      assume "0 \<in> set barlines0"
      from sorted_nonneg_hd [OF assms(2,3) this] False show False by simp
    qed
    moreover from assms(2,3) have "sorted (map sint (0 # barlines0))" by simp
    then have "sort_key sint (0 # barlines0) = 0 # barlines0" by (rule sort_key_sorted_id)
    ultimately show ?thesis using False t(2,3) by (simp del: sort_key_simps)
  qed
qed

lemma get_measure_position_exact:
  fixes res time :: int64
  assumes n: "1 < length mt"
  defines "idx \<equiv> int (searchsorted_right mt time) - 1"
  defines "len \<equiv> (if idx < int (length mt) - 1 then np_at mt (idx + 1) - np_at mt idx
                    else np_at mt idx - np_at mt (idx - 1))"
  defines "offset \<equiv> sint res * (sint time - np_at mt idx)"
  assumes r: "res \<noteq> 0" and l: "len \<noteq> 0" and ob: "\<bar>offset\<bar> < 2 ^ 53" and lb: "\<bar>len\<bar> < 2 ^ 53"
  shows "get_measure_position res mt time
     = Inr (idx, \<lceil>real_of_int offset / real_of_int len\<rceil> mod sint res)"
proof -
  have lo: "- 1 \<le> idx" by (simp add: idx_def)
  have hi: "idx < int (length mt)"
    using searchsorted_right_le [of mt time] by (simp add: idx_def)
  define tw where "tw = mt ! nat (idx mod int (length mt))"
  have cur: "py_index mt idx = Inr tw"
    unfolding tw_def using lo hi n by (intro py_index_mod) simp_all
  have at: "np_at mt idx = sint tw" by (simp add: np_at_def tw_def)
  from r have "sint res \<noteq> 0" by (simp add: sint_eq_0_iff)
  then have "1 \<le> \<bar>sint res\<bar>" by simp
  then have "1 * \<bar>sint time - sint tw\<bar> \<le> \<bar>sint res\<bar> * \<bar>sint time - sint tw\<bar>"
    by (intro mult_right_mono) simp_all
  with ob have d: "\<bar>sint time - sint tw\<bar> < 2 ^ 53"
    by (simp add: offset_def at abs_mult)
  have "(2 :: int) ^ 53 < 2 ^ 63" by simp
  note big = less_trans [OF _ this]
  from d have sd: "sint (time - tw) = sint time - sint tw"
    by (intro sint_sub_exact big)
  from ob have so: "sint (res * (time - tw)) = offset"
    unfolding offset_def at sd [symmetric] by (intro sint_mult_exact big)
  define ml where "ml = (if idx < int (length mt) - 1
      then mt ! nat ((idx + 1) mod int (length mt)) - tw
      else tw - mt ! nat ((idx - 1) mod int (length mt)))"
  have sl: "sint ml = len"
  proof (cases "idx < int (length mt) - 1")
    case True
    with lb have "\<bar>sint (mt ! nat ((idx + 1) mod int (length mt))) - sint tw\<bar> < 2 ^ 53"
      by (simp add: len_def np_at_def tw_def)
    then have "sint (mt ! nat ((idx + 1) mod int (length mt)) - tw)
        = sint (mt ! nat ((idx + 1) mod int (length mt))) - sint tw"
      by (intro sint_sub_exact big)
    with True show ?thesis by (simp add: ml_def len_def np_at_def tw_def)
  next
    case False
    with lb have "\<bar>sint tw - sint (mt ! nat ((idx - 1) mod int (length mt)))\<bar> < 2 ^ 53"
      by (simp add: len_def np_at_def tw_def)
    then have "sint (tw - mt ! nat ((idx - 1) mod int (length mt)))
        = sint tw - sint (mt ! nat ((idx - 1) mod int (length mt)))"
      by (intro sint_sub_exact big)
    with False show ?thesis by (simp add: ml_def len_def np_at_def tw_def)
  qed
  have len_eq: "(if idx < int (length mt) - 1
                then ebind (py_index mt (idx + 1)) (\<lambda>next_time.
                     ebind (py_index mt idx) (\<lambda>this_time.
                       Inr (next_time - this_time)))
                else ebind (py_index mt idx) (\<lambda>this_time.
                     ebind (py_index mt (idx - 1)) (\<lambda>prev_time.
                       Inr (this_time - prev_time)))) = Inr ml"
  proof (cases "idx < int (length mt) - 1")
    case True
    with lo have "py_index mt (idx + 1) = Inr (mt ! nat ((idx + 1) mod int (length mt)))"
      by (intro py_index_mod) simp_all
    with True cur show ?thesis by (simp add: ml_def)
  next
    case False
    with hi n have "py_index mt (idx - 1) = Inr (mt ! nat ((idx - 1) mod int (length mt)))"
      by (intro py_index_mod) simp_all
    with False cur show ?thesis by (simp add: ml_def)
  qed
  have fc: "float_ceil_div offset len = Inr \<lceil>real_of_int offset / real_of_int len\<rceil>"
    using l ob lb by (rule float_ceil_div_exact)
  show ?thesis
    unfolding get_measure_position_def Let_def idx_def [symmetric] len_eq
    using r by (simp add: cur so sl fc)
qed

text \<open>
  C1, amended: for every 64-bit timestamp \<open>t\<close>, the measure table is sorted and consists
  of the bar-line times and 0 (for sorted bar lines that are not negative, 0 is put in
  front exactly when it is absent). The quantizer's measure index is
  \<open>searchsorted(boundaries, t, side = right) - 1\<close>: the index of the last boundary at or
  before \<open>t\<close>, or \<open>-1\<close> when \<open>t\<close> lies before every boundary, and the index \<open>-1\<close> reads
  the last boundary. The measure length is the distance to the next boundary, and for
  the last measure the distance from the previous one. When the resolution and that
  length are not 0, and the length and the product
  \<open>resolution * (t - boundaries[measure_idx])\<close> are below \<open>2^53\<close> in absolute value, the
  quantizer returns the index with the position
  \<open>ceil(resolution * (t - boundaries[measure_idx]) / measure_length) mod resolution\<close>, the
  ceiling of the real quotient taken before the modulo.
\<close>

theorem get_measure_position_quantizes:
  assumes "measure_table barlines0 = Inr (barline_times, measure_times)"
  shows "sorted (map sint measure_times) \<and> set measure_times = insert 0 (set barlines0)
    \<and> (sorted (map sint barlines0) \<and> (\<forall>b \<in> set barlines0. 0 \<le> sint b) \<longrightarrow>
          measure_times = (if 0 \<in> set barlines0 then barlines0 else 0 # barlines0))
    \<and> (let idx = int (searchsorted_right measure_times time) - 1;
            this_time = np_at measure_times idx;
            len = (if idx < int (length measure_times) - 1
                   then np_at measure_times (idx + 1) - this_time
                   else this_time - np_at measure_times (idx - 1));
            offset = sint res * (sint time - this_time)
        in - 1 \<le> idx \<and> idx < int (length measure_times)
           \<and> (0 \<le> idx \<longrightarrow> this_time \<le> sint time)
           \<and> (idx + 1 < int (length measure_times) \<longrightarrow> sint time < np_at measure_times (idx + 1))
           \<and> (res \<noteq> 0 \<and> len \<noteq> 0 \<and> \<bar>offset\<bar> < 2 ^ 53 \<and> \<bar>len\<bar> < 2 ^ 53 \<longrightarrow>
                get_measure_position res measure_times time
                  = Inr (idx, \<lceil>real_of_int offset / real_of_int len\<rceil> mod sint res)))"
proof -
  note t = measure_table_Inr [OF assms]
  note s = measure_table_set [OF assms]
  define k where "k = searchsorted_right measure_times time"
  have kl: "k \<le> length measure_times" unfolding k_def by (rule searchsorted_right_le)
  have a: "- 1 \<le> int k - 1" by simp
  from kl have b: "int k - 1 < int (length measure_times)" by simp
  have c: "np_at measure_times (int k - 1) \<le> sint time" if "0 \<le> int k - 1"
  proof -
    from that have k1: "k - 1 < k" by simp
    with kl have "k - 1 < length measure_times" by simp
    from np_at_nat [OF this] that have "np_at measure_times (int k - 1) = sint (measure_times ! (k - 1))"
      by (simp add: of_nat_diff)
    with searchsorted_right_before [of "k - 1" measure_times time] k1 show ?thesis
      by (simp add: k_def)
  qed
  have d: "sint time < np_at measure_times (int k - 1 + 1)" if "int k - 1 + 1 < int (length measure_times)"
  proof -
    from that have "k < length measure_times" by simp
    with searchsorted_right_at [of measure_times time] np_at_nat [of k measure_times]
    show ?thesis by (simp add: k_def)
  qed
  note e = get_measure_position_exact [OF t(4), of res time, folded k_def]
  from s measure_table_sorted_input [OF assms] a b c d e
  show ?thesis unfolding Let_def k_def [symmetric] by blast
qed

text \<open>
  C1 as stated, for every timestamp, fails. With bar lines at 0 and 96 and the
  resolution 24, at the timestamp \<open>10^17\<close> the product \<open>24 * (10^17 - 96)\<close> has more
  than 53 significant bits: it is rounded to a double, so is the quotient, and the
  quantizer returns the position 20 where the formula gives 16. At the timestamp
  \<open>2^62\<close> the \<open>int64\<close> product wraps around to \<open>-2304\<close>, and the quantizer returns the
  position 0 where the formula gives 16.
\<close>

theorem get_measure_position_rounds:
  "measure_table [0, 96] = Inr ([0, 96], [0, 96])
   \<and> get_measure_position 24 [0, 96] 100000000000000000 = Inr (1, 20)
   \<and> \<lceil>real_of_int (24 * (100000000000000000 - 96)) / real_of_int 96\<rceil> mod 24 = 16
   \<and> get_measure_position 24 [0, 96] 4611686018427387904 = Inr (1, 0)
   \<and> \<lceil>real_of_int (24 * (4611686018427387904 - 96)) / real_of_int 96\<rceil> mod 24 = 16"
proof -
  have t: "measure_table [0, 96] = Inr ([0, 96], [0, 96])" by code_simp
  have a: "get_measure_position 24 [0, 96] 100000000000000000 = Inr (1, 20)" by code_simp
  have b: "get_measure_position 24 [0, 96] 4611686018427387904 = Inr (1, 0)" by code_simp
  have c: "\<lceil>real_of_int (24 * (100000000000000000 - 96)) / real_of_int 96\<rceil> mod 24 = 16"
    by (simp add: ceiling_divide_eq_div)
  have d: "\<lceil>real_of_int (24 * (4611686018427387904 - 96)) / real_of_int 96\<rceil> mod 24 = 16"
    by (simp add: ceiling_divide_eq_div)
  from t a c b d show ?thesis by (intro conjI)
qed

text \<open>
  Bar lines at 0, 96 and 192, resolution 24, timestamp 191: the measure index is 1, and
  the position is \<open>ceil(24 * 95 / 96) = 24\<close>, which the modulo wraps to 0.
\<close>

theorem get_measure_position_quantizes_witness:
  "measure_table [0, 96, 192] = Inr ([0, 96, 192], [0, 96, 192])
   \<and> sorted (map sint [0, 96, 192 :: int64])
   \<and> int (searchsorted_right [0, 96, 192] 191) - 1 = 1
   \<and> np_at [0, 96, 192] 1 = 96 \<and> np_at [0, 96, 192] (1 + 1) = 192
   \<and> (96 :: int) \<le> sint (191 :: int64) \<and> sint (191 :: int64) < 192
   \<and> (24 :: int64) \<noteq> 0 \<and> (192 - 96 :: int) \<noteq> 0
   \<and> \<bar>sint (24 :: int64) * (sint (191 :: int64) - 96)\<bar> < 2 ^ 53
   \<and> get_measure_position 24 [0, 96, 192] 191 = Inr (1, 0)"
proof -
  have t: "measure_table [0, 96, 192] = Inr ([0, 96, 192], [0, 96, 192])" by code_simp
  have ss: "int (searchsorted_right [0, 96, 192] 191) - 1 = 1" by code_simp
  have at: "np_at [0, 96, 192] 1 = 96" "np_at [0, 96, 192] (1 + 1) = 192" by code_simp+
  have w: "sint (191 :: int64) = 191" "sint (24 :: int64) = 24" by code_simp+
  have r: "(24 :: int64) \<noteq> 0" by simp
  note q = get_measure_position_quantizes [OF t, of 191 24, unfolded Let_def ss at w]
  from q have s: "sorted (map sint [0, 96, 192 :: int64])" by (rule conjunct1)
  from q r have g: "get_measure_position 24 [0, 96, 192] 191 = Inr (1, 0)" by simp
  from t s ss at g show ?thesis by (simp add: w)
qed

text \<open>The encoder's errors, and the pitches of the events it collects.\<close>

lemma float_ceil_div_Inl: "float_ceil_div a b = Inl e \<Longrightarrow> e = ValueError \<or> e = OverflowError"
  by (auto simp: float_ceil_div_def split: if_splits)

lemma get_measure_position_Inl:
  "get_measure_position res mt t = Inl e \<Longrightarrow> e \<noteq> RuntimeError"
  by (auto simp: get_measure_position_def Let_def ebind_eq_Inl
        dest!: py_index_Inl float_ceil_div_Inl split: if_splits)

lemma group_Inl:
  "bar_group res mt b = Inl e \<Longrightarrow> e \<noteq> RuntimeError"
  "tempo_group res mt tp = Inl e \<Longrightarrow> e \<noteq> RuntimeError"
  "note_group res mt n = Inl e \<Longrightarrow> e \<noteq> RuntimeError"
  by (auto simp: bar_group_def tempo_group_def note_group_def ebind_eq_Inl
        dest: get_measure_position_Inl)

lemma measure_table_Inl: "measure_table bl = Inl e \<Longrightarrow> e \<noteq> RuntimeError"
  by (auto simp: measure_table_unfold split: if_splits)

lemma collect_events_Inl: "collect_events res m ns = Inl e \<Longrightarrow> e \<noteq> RuntimeError"
  by (auto simp: collect_events_def Let_def ebind_eq_Inl
        dest!: emap_Inl dest: measure_table_Inl group_Inl)

lemma append_event_Inl: "append_event ix nm ev = Inl e \<Longrightarrow> e = KeyError"
  by (auto simp: append_event_def split: option.splits)

lemma serialize_Inl: "serialize ix nm evs = Inl e \<Longrightarrow> e \<noteq> RuntimeError"
  by (auto simp: serialize_def dest!: emap_Inl append_event_Inl)

lemma get_remi_indexer_Inl: "get_remi_indexer = Inl e \<Longrightarrow> e \<noteq> RuntimeError"
  by (auto simp: get_remi_indexer_def make_bidict_def split: if_splits)

lemma note_on_pitches_append:
  "note_on_pitches (xs @ ys) = note_on_pitches xs @ note_on_pitches ys"
  by (induction xs rule: note_on_pitches.induct) simp_all

lemma note_on_pitches_concat:
  "mset (note_on_pitches (concat xss)) = (\<Sum>xs\<leftarrow>xss. mset (note_on_pitches xs))"
  by (induction xss) (simp_all add: note_on_pitches_append)

lemma sum_list_sort_key:
  fixes f :: "'a \<Rightarrow> 'b multiset"
  shows "(\<Sum>x\<leftarrow>sort_key k xs. f x) = (\<Sum>x\<leftarrow>xs. f x)"
proof -
  have "mset (map f (sort_key k xs)) = mset (map f xs)" by simp
  then have "sum_mset (mset (map f (sort_key k xs))) = sum_mset (mset (map f xs))" by simp
  then show ?thesis by (simp only: sum_mset_sum_list)
qed

lemma event_stream_pitches:
  "mset (note_on_pitches (event_stream nm evs)) = (\<Sum>ev\<leftarrow>evs. mset (note_on_pitches (snd ev)))"
proof -
  have g: "note_on_pitches (if event_name nm (hd (snd ev)) \<noteq> ''bar''
                            then PositionEvent (snd (fst ev)) # snd ev
                            else snd ev) = note_on_pitches (snd ev)"
    for ev :: "(int \<times> int) \<times> remi_event list"
    by simp
  show ?thesis
    by (simp add: event_stream_def note_on_pitches_append note_on_pitches_concat comp_def g)
qed

lemma bar_groups_pitches:
  "emap (bar_group res mt) xs = Inr evs \<Longrightarrow> (\<Sum>ev\<leftarrow>evs. mset (note_on_pitches (snd ev))) = {#}"
  by (induction xs arbitrary: evs) (auto simp: ebind_eq_Inr bar_group_def)

lemma tempo_groups_pitches:
  "emap (tempo_group res mt) xs = Inr evs \<Longrightarrow> (\<Sum>ev\<leftarrow>evs. mset (note_on_pitches (snd ev))) = {#}"
  by (induction xs arbitrary: evs) (auto simp: ebind_eq_Inr tempo_group_def)

lemma note_groups_pitches:
  "emap (note_group res mt) ns = Inr evs \<Longrightarrow>
     (\<Sum>ev\<leftarrow>evs. mset (note_on_pitches (snd ev))) = mset (map n_pitch ns)"
  by (induction ns arbitrary: evs) (auto simp: ebind_eq_Inr note_group_def)

lemma collect_events_pitches:
  assumes "collect_events res m ns = Inr events"
  shows "mset (note_on_pitches (event_stream nm (sort_key fst events)))
     = mset (map n_pitch (filter (\<lambda>n. 0 < n_duration n) ns))"
proof -
  from assms obtain tables bar_events tempo_events note_events where
    b: "emap (bar_group res (snd tables)) (fst tables) = Inr bar_events"
    and t: "emap (tempo_group res (snd tables)) (tempos m) = Inr tempo_events"
    and n: "emap (note_group res (snd tables)) (filter (\<lambda>n. 0 < n_duration n) ns) = Inr note_events"
    and o: "events = bar_events @ tempo_events @ note_events"
    by (auto simp: collect_events_def Let_def ebind_eq_Inr)
  show ?thesis
    unfolding o event_stream_pitches sum_list_sort_key
    using bar_groups_pitches [OF b] tempo_groups_pitches [OF t] note_groups_pitches [OF n]
    by simp
qed

lemma to_remi_event_sequence_RuntimeError:
  "to_remi_event_sequence nm adjust_resolution music0 res = Inl RuntimeError
      \<longleftrightarrow> concat (tracks (adjust_resolution res music0)) = []"
proof
  assume "concat (tracks (adjust_resolution res music0)) = []"
  then show "to_remi_event_sequence nm adjust_resolution music0 res = Inl RuntimeError"
    by (simp add: to_remi_event_sequence_def)
next
  assume r: "to_remi_event_sequence nm adjust_resolution music0 res = Inl RuntimeError"
  show "concat (tracks (adjust_resolution res music0)) = []"
  proof (rule ccontr)
    assume "concat (tracks (adjust_resolution res music0)) \<noteq> []"
    with r show False
      by (auto simp: to_remi_event_sequence_def Let_def ebind_eq_Inl
            dest: get_remi_indexer_Inl collect_events_Inl serialize_Inl split: if_splits)
  qed
qed

lemma to_remi_event_sequence_Inr:
  assumes "to_remi_event_sequence nm adjust_resolution music0 res = Inr out"
  shows "\<exists>indexer events. get_remi_indexer = Inr indexer
     \<and> collect_events res (adjust_resolution res music0)
          (concat (tracks (adjust_resolution res music0))) = Inr events
     \<and> emap (append_event indexer nm) (event_stream nm (sort_key fst events)) = Inr out
     \<and> mset (note_on_pitches (event_stream nm (sort_key fst events)))
         = mset (map n_pitch (filter (\<lambda>n. 0 < n_duration n)
                                (concat (tracks (adjust_resolution res music0)))))"
proof -
  from assms obtain indexer events where
    i: "get_remi_indexer = Inr indexer"
    and c: "collect_events res (adjust_resolution res music0)
          (concat (tracks (adjust_resolution res music0))) = Inr events"
    and s: "serialize indexer nm (sort_key fst events) = Inr out"
    by (auto simp: to_remi_event_sequence_def Let_def ebind_eq_Inr split: if_splits)
  from s have "emap (append_event indexer nm) (event_stream nm (sort_key fst events)) = Inr out"
    by (simp add: serialize_def)
  with i c collect_events_pitches [OF c, of nm] show ?thesis by blast
qed

text \<open>
  C4, amended: \<^verbatim>\<open>to_remi_event_sequence\<close> raises its \<^verbatim>\<open>RuntimeError("No notes found.")\<close>
  if and only if the music object has no note at all, whatever the durations: the check
  comes before the duration filter. Notes with non-positive duration are silently
  dropped: whenever a sequence is returned, it holds the codes of the collected events,
  sorted and announced by their positions, and the note-on events among them carry
  exactly the pitches of the notes with positive duration. So a music object that has
  notes, all of them with a non-positive duration, does not raise that error, and a
  sequence returned for it has no note-on event.
\<close>

theorem to_remi_event_sequence_no_notes:
  "(let music = adjust_resolution res music0; notes = concat (tracks music);
        sounding = filter (\<lambda>n. 0 < n_duration n) notes;
        result = to_remi_event_sequence nm adjust_resolution music0 res
    in (result = Inl RuntimeError \<longleftrightarrow> notes = [])
     \<and> (\<forall>out. result = Inr out \<longrightarrow>
          (\<exists>indexer events. get_remi_indexer = Inr indexer
             \<and> collect_events res music notes = Inr events
             \<and> emap (append_event indexer nm) (event_stream nm (sort_key fst events)) = Inr out
             \<and> mset (note_on_pitches (event_stream nm (sort_key fst events)))
                 = mset (map n_pitch sounding)))
     \<and> (notes \<noteq> [] \<and> sounding = [] \<longrightarrow>
          result \<noteq> Inl RuntimeError
          \<and> (\<forall>out. result = Inr out \<longrightarrow>
               (\<exists>indexer events. get_remi_indexer = Inr indexer
                  \<and> collect_events res music notes = Inr events
                  \<and> emap (append_event indexer nm) (event_stream nm (sort_key fst events)) = Inr out
                  \<and> note_on_pitches (event_stream nm (sort_key fst events)) = []))))"
proof -
  note a = to_remi_event_sequence_RuntimeError [of nm adjust_resolution music0 res]
  note b = to_remi_event_sequence_Inr [of nm adjust_resolution music0 res]
  have c: "\<exists>indexer events. get_remi_indexer = Inr indexer
        \<and> collect_events res (adjust_resolution res music0)
             (concat (tracks (adjust_resolution res music0))) = Inr events
        \<and> emap (append_event indexer nm) (event_stream nm (sort_key fst events)) = Inr out
        \<and> note_on_pitches (event_stream nm (sort_key fst events)) = []"
    if "to_remi_event_sequence nm adjust_resolution music0 res = Inr out"
      "filter (\<lambda>n. 0 < n_duration n) (concat (tracks (adjust_resolution res music0))) = []"
    for out
    using b [OF that(1)] that(2) by auto
  from a b c show ?thesis unfolding Let_def by blast
qed

text \<open>The codes of the events of the two examples, under the plain naming.\<close>

lemma get_remi_indexer_encode:
  "\<exists>indexer. get_remi_indexer = Inr indexer
     \<and> (\<forall>s c. encode indexer s = Some c \<longleftrightarrow> c < 430 \<and> remi_keys ! c = s)"
proof -
  let ?d = "enumerate_keys remi_keys"
  let ?b = "\<lparr>forward = ?d, inverse = map (\<lambda>(k, v). (v, k)) ?d\<rparr>"
  have "distinct (map snd ?d)" by (simp add: enumerate_keys_snd)
  then have g: "get_remi_indexer = Inr ?b"
    by (simp add: get_remi_indexer_def make_bidict_def remi_indexer_dict_enumerate)
  have enc: "\<forall>s c. encode ?b s = Some c \<longleftrightarrow> c < 430 \<and> remi_keys ! c = s"
    using map_of_enumerate_keys [OF distinct_remi_keys] by (simp add: encode_def length_remi_keys)
  show ?thesis by (rule exI [of _ ?b]) (intro conjI g enc)
qed

lemma append_event_code:
  assumes "\<forall>s c. encode indexer s = Some c \<longleftrightarrow> c < 430 \<and> remi_keys ! c = s"
    and "c < 430" and "remi_keys ! c = event_name nm e"
  shows "append_event indexer nm e = Inr c"
proof -
  from assms have "encode indexer (event_name nm e) = Some c" by simp
  then show ?thesis by (simp add: append_event_def)
qed

lemma group_lengths:
  "length note_on_keys = 128" "length note_duration_keys = 64" "length note_velocity_keys = 32"
  "length position_keys = 24" "length tempo_keys = 180"
  by (simp_all add: note_on_keys_def note_duration_keys_def note_velocity_keys_def
        position_keys_def tempo_keys_def)

lemma remi_keys_0: "remi_keys ! 0 = ''bar''"
  by (simp add: remi_keys_groups)

lemma remi_keys_1: "remi_keys ! 1 = ''eos''"
  by (simp add: remi_keys_groups)

lemma remi_keys_133: "remi_keys ! 133 = ''note_duration_4''"
proof -
  have "remi_keys ! 133 = note_duration_keys ! 3"
    by (simp add: remi_keys_groups nth_append group_lengths)
  also have "\<dots> = ''note_duration_'' @ format_nat 4"
    by (simp add: note_duration_keys_def)
  also have "\<dots> = ''note_duration_4''"
    by (simp add: format_nat.simps digit_char_def)
  finally show ?thesis .
qed

lemma remi_keys_214: "remi_keys ! 214 = ''note_velocity_20''"
proof -
  have "remi_keys ! 214 = note_velocity_keys ! 20"
    by (simp add: remi_keys_groups nth_append group_lengths)
  also have "\<dots> = ''note_velocity_'' @ format_nat 20"
    by (simp add: note_velocity_keys_def)
  also have "\<dots> = ''note_velocity_20''"
    by (simp add: format_nat.simps digit_char_def)
  finally show ?thesis .
qed

lemma remi_keys_226: "remi_keys ! 226 = ''position_0''"
proof -
  have "remi_keys ! 226 = position_keys ! 0"
    by (simp add: remi_keys_groups nth_append group_lengths)
  also have "\<dots> = ''position_'' @ format_nat 0"
    by (simp add: position_keys_def)
  also have "\<dots> = ''position_0''"
    by (simp add: format_nat.simps digit_char_def)
  finally show ?thesis .
qed

lemma remi_keys_340: "remi_keys ! 340 = ''tempo_120''"
proof -
  have "remi_keys ! 340 = tempo_keys ! 90"
    by (simp add: remi_keys_groups nth_append group_lengths)
  also have "\<dots> = ''tempo_'' @ format_nat 120"
    by (simp add: tempo_keys_def)
  also have "\<dots> = ''tempo_120''"
    by (simp add: format_nat.simps digit_char_def)
  finally show ?thesis .
qed

lemma plain_names_demo:
  "event_name plain_names BarEvent = ''bar''"
  "event_name plain_names EosEvent = ''eos''"
  "event_name plain_names (PositionEvent 0) = ''position_0''"
  "event_name plain_names (TempoEvent 120) = ''tempo_120''"
  "event_name plain_names (NoteOnEvent 60) = ''note_on_60''"
  "event_name plain_names (NoteVelocityEvent 20) = ''note_velocity_20''"
  "event_name plain_names (NoteDurationEvent 4) = ''note_duration_4''"
  by (simp_all add: plain_names_def format_int_def format_nat.simps digit_char_def)

lemma silent_collect:
  "collect_events 24 silent_music (concat (tracks silent_music))
     = Inr [((0, 0), [BarEvent]), ((1, 0), [BarEvent])]"
  by code_simp

lemma silent_stream:
  "event_stream plain_names (sort_key fst [((0, 0), [BarEvent]), ((1, 0), [BarEvent])])
     = [BarEvent, BarEvent, EosEvent]"
  by code_simp

lemma demo_collect:
  "collect_events 24 demo_music (concat (tracks demo_music))
     = Inr [((0, 0), [BarEvent]), ((1, 0), [BarEvent]), ((0, 0), [TempoEvent 120]),
            ((0, 0), [NoteOnEvent 60, NoteVelocityEvent 20, NoteDurationEvent 4])]"
  by code_simp

lemma demo_stream:
  "event_stream plain_names
     (sort_key fst [((0, 0), [BarEvent]), ((1, 0), [BarEvent]), ((0, 0), [TempoEvent 120]),
            ((0, 0), [NoteOnEvent 60, NoteVelocityEvent 20, NoteDurationEvent 4])])
     = [BarEvent, PositionEvent 0, TempoEvent 120, PositionEvent 0, NoteOnEvent 60,
        NoteVelocityEvent 20, NoteDurationEvent 4, BarEvent, EosEvent]"
  by code_simp

lemma silent_music_notes:
  "concat (tracks silent_music) \<noteq> []"
  "filter (\<lambda>n. 0 < n_duration n) (concat (tracks silent_music)) = []"
  by (simp_all add: silent_music_def)

lemma demo_music_notes:
  "concat (tracks demo_music) \<noteq> []"
  "map n_pitch (filter (\<lambda>n. 0 < n_duration n) (concat (tracks demo_music))) = [60]"
  by (simp_all add: demo_music_def)

lemma silent_music_encoded:
  "to_remi_event_sequence plain_names keep_resolution silent_music 24 = Inr [0, 0, 1]"
proof -
  from get_remi_indexer_encode obtain indexer where
    i: "get_remi_indexer = Inr indexer"
    and e: "\<forall>s c. encode indexer s = Some c \<longleftrightarrow> c < 430 \<and> remi_keys ! c = s"
    by blast
  have c: "append_event indexer plain_names BarEvent = Inr 0"
    "append_event indexer plain_names EosEvent = Inr 1"
    by (rule append_event_code [OF e], simp, simp only: plain_names_demo remi_keys_0 remi_keys_1)+
  have "to_remi_event_sequence plain_names keep_resolution silent_music 24
      = ebind get_remi_indexer (\<lambda>indexer.
          ebind (collect_events 24 silent_music (concat (tracks silent_music))) (\<lambda>events.
            serialize indexer plain_names (sort_key fst events)))"
    unfolding to_remi_event_sequence_def Let_def keep_resolution_def
    using silent_music_notes(1) by (simp only: if_False)
  also have "\<dots> = emap (append_event indexer plain_names)
      (event_stream plain_names (sort_key fst (projr
         (collect_events 24 silent_music (concat (tracks silent_music))))))"
    by (simp only: i ebind_Inr silent_collect serialize_def sum.sel)
  finally show ?thesis
    by (simp only: silent_collect sum.sel silent_stream emap.simps c ebind_Inr)
qed

lemma demo_music_encoded:
  "to_remi_event_sequence plain_names keep_resolution demo_music 24
     = Inr [0, 226, 340, 226, 62, 214, 133, 0, 1]"
proof -
  from get_remi_indexer_encode obtain indexer where
    i: "get_remi_indexer = Inr indexer"
    and e: "\<forall>s c. encode indexer s = Some c \<longleftrightarrow> c < 430 \<and> remi_keys ! c = s"
    by blast
  have c: "append_event indexer plain_names BarEvent = Inr 0"
    "append_event indexer plain_names EosEvent = Inr 1"
    "append_event indexer plain_names (PositionEvent 0) = Inr 226"
    "append_event indexer plain_names (TempoEvent 120) = Inr 340"
    "append_event indexer plain_names (NoteOnEvent 60) = Inr 62"
    "append_event indexer plain_names (NoteVelocityEvent 20) = Inr 214"
    "append_event indexer plain_names (NoteDurationEvent 4) = Inr 133"
    by (rule append_event_code [OF e], simp,
        simp only: plain_names_demo remi_keys_0 remi_keys_1 remi_keys_226 remi_keys_340
          remi_keys_62 remi_keys_214 remi_keys_133)+
  have "to_remi_event_sequence plain_names keep_resolution demo_music 24
      = ebind get_remi_indexer (\<lambda>indexer.
          ebind (collect_events 24 demo_music (concat (tracks demo_music))) (\<lambda>events.
            serialize indexer plain_names (sort_key fst events)))"
    unfolding to_remi_event_sequence_def Let_def keep_resolution_def
    using demo_music_notes(1) by (simp only: if_False)
  also have "\<dots> = emap (append_event indexer plain_names)
      (event_stream plain_names (sort_key fst (projr
         (collect_events 24 demo_music (concat (tracks demo_music))))))"
    by (simp only: i ebind_Inr demo_collect serialize_def sum.sel)
  finally show ?thesis
    by (simp only: demo_collect sum.sel demo_stream emap.simps c ebind_Inr)
qed

text \<open>
  C4 as stated fails at a music object whose only note has duration 0: no note is left
  after the filter, and the encoder raises nothing; it returns the codes of the two bar
  events and of the end of sequence.
\<close>

theorem all_notes_filtered_no_error:
  "concat (tracks silent_music) \<noteq> []
   \<and> filter (\<lambda>n. 0 < n_duration n) (concat (tracks silent_music)) = []
   \<and> to_remi_event_sequence plain_names keep_resolution silent_music 24 = Inr [0, 0, 1]"
  using silent_music_notes silent_music_encoded by (intro conjI)

text \<open>
  A music object with one note of duration 4 and one of duration 0 is encoded; the
  sequence has the one note-on event of pitch 60, with the code 62. The music object
  with one note of duration 0 is encoded without a note-on event.
\<close>

theorem to_remi_event_sequence_no_notes_witness:
  "to_remi_event_sequence plain_names keep_resolution demo_music 24
     = Inr [0, 226, 340, 226, 62, 214, 133, 0, 1]
   \<and> concat (tracks demo_music) \<noteq> []
   \<and> to_remi_event_sequence plain_names keep_resolution demo_music 24 \<noteq> Inl RuntimeError
   \<and> (\<exists>indexer events. get_remi_indexer = Inr indexer
        \<and> collect_events 24 demo_music (concat (tracks demo_music)) = Inr events
        \<and> emap (append_event indexer plain_names)
             (event_stream plain_names (sort_key fst events))
            = Inr [0, 226, 340, 226, 62, 214, 133, 0, 1]
        \<and> mset (note_on_pitches (event_stream plain_names (sort_key fst events))) = mset [60])
   \<and> concat (tracks silent_music) \<noteq> []
   \<and> filter (\<lambda>n. 0 < n_duration n) (concat (tracks silent_music)) = []
   \<and> to_remi_event_sequence plain_names keep_resolution silent_music 24 \<noteq> Inl RuntimeError
   \<and> (\<exists>indexer events. get_remi_indexer = Inr indexer
        \<and> collect_events 24 silent_music (concat (tracks silent_music)) = Inr events
        \<and> emap (append_event indexer plain_names)
             (event_stream plain_names (sort_key fst events)) = Inr [0, 0, 1]
        \<and> note_on_pitches (event_stream plain_names (sort_key fst events)) = [])"
proof -
  have k: "keep_resolution 24 demo_music = demo_music"
    "keep_resolution 24 silent_music = silent_music"
    by (simp_all add: keep_resolution_def)
  note q = to_remi_event_sequence_no_notes [where adjust_resolution = keep_resolution
      and res = 24 and nm = plain_names, unfolded Let_def]
  note d = q [where ?music0.0 = demo_music, unfolded k]
  note s = q [where ?music0.0 = silent_music, unfolded k]
  from d [THEN conjunct1] demo_music_notes(1)
  have 1: "to_remi_event_sequence plain_names keep_resolution demo_music 24 \<noteq> Inl RuntimeError"
    by simp
  note 2 = d [THEN conjunct2, THEN conjunct1, rule_format, OF demo_music_encoded,
      unfolded demo_music_notes(2)]
  note 3 = s [THEN conjunct2, THEN conjunct2, rule_format,
      OF conjI [OF silent_music_notes]]
  note 4 = 3 [THEN conjunct2, rule_format, OF silent_music_encoded]
  from demo_music_encoded demo_music_notes(1) 1 2 silent_music_notes 3 [THEN conjunct1] 4
  show ?thesis by (intro conjI)
qed


subsection \<open>Piece boundary normalization\<close>

lemma normalize_bar_pos_unfold:
  "normalize_bar_pos bar_pos p_evs =
     (if bar_pos = [] then Inl IndexError
      else let b1 = (if last bar_pos = int (length p_evs) then butlast bar_pos else bar_pos)
           in if b1 = [] then Inl IndexError
              else Inr ((if int (length p_evs) - last b1 = 2 then butlast b1 else b1)
                        @ [int (length p_evs)]))"
  by (simp add: normalize_bar_pos_def py_index_last py_slice_butlast Let_def)

lemma strict_butlast_last:
  "sorted_wrt (<) (xs :: int list) \<Longrightarrow> butlast xs \<noteq> [] \<Longrightarrow> last (butlast xs) < last xs"
proof (induction xs rule: rev_induct)
  case Nil
  then show ?case by simp
next
  case (snoc x xs)
  then show ?case by (auto simp: sorted_wrt_append)
qed

lemma strict_butlast: "sorted_wrt (<) (xs :: int list) \<Longrightarrow> sorted_wrt (<) (butlast xs)"
  by (induction xs rule: rev_induct) (auto simp: sorted_wrt_append)

lemma strict_hd_last: "sorted_wrt (<) (xs :: int list) \<Longrightarrow> xs \<noteq> [] \<Longrightarrow> hd xs \<le> last xs"
  by (induction xs rule: rev_induct) (auto simp: sorted_wrt_append hd_append less_imp_le)

text \<open>
  C8, applied to a pair: a degenerate piece of two tokens with the single boundary 0 is
  normalized to the boundary list [2]; normalizing that pair again raises
  \<^verbatim>\<open>IndexError\<close> instead of returning it.
\<close>

theorem normalize_not_idempotent:
  "normalize_bar_pos [0]
       [\<lparr>ev_name = ''Bar'', ev_value = NoneV\<rparr>, \<lparr>ev_name = ''EOS'', ev_value = NoneV\<rparr>] = Inr [2]
   \<and> normalize_bar_pos [2]
       [\<lparr>ev_name = ''Bar'', ev_value = NoneV\<rparr>, \<lparr>ev_name = ''EOS'', ev_value = NoneV\<rparr>]
     = Inl IndexError"
  by (simp add: normalize_bar_pos_unfold)

text \<open>
  C8, amended: for a stored pair whose boundary list is strictly increasing and starts at
  0 and whose token count is not 2, whenever normalization succeeds, normalizing the
  normalized pair again yields the same pair.
\<close>

theorem normalize_idempotent:
  assumes "normalize_bar_pos bar_pos p_evs = Inr normalized"
    and "sorted_wrt (<) bar_pos" and "hd bar_pos = 0" and "length p_evs \<noteq> 2"
  shows "normalize_bar_pos normalized p_evs = Inr normalized"
proof -
  let ?n = "int (length p_evs)"
  let ?b1 = "if last bar_pos = ?n then butlast bar_pos else bar_pos"
  let ?b2 = "if ?n - last ?b1 = 2 then butlast ?b1 else ?b1"
  from assms(1) have ne: "bar_pos \<noteq> []" and ne1: "?b1 \<noteq> []" and n: "normalized = ?b2 @ [?n]"
    by (auto simp: normalize_bar_pos_unfold Let_def split: if_splits)
  have s1: "sorted_wrt (<) ?b1" using assms(2) by (simp add: strict_butlast)
  have h1: "hd ?b1 = 0" using assms(3) ne1 by (cases bar_pos rule: rev_cases) (auto simp: hd_append)
  have ne2: "?b2 \<noteq> []"
  proof
    assume e: "?b2 = []"
    with ne1 have d: "?n - last ?b1 = 2" and b: "butlast ?b1 = []" by (auto split: if_splits)
    from b ne1 have "?b1 = [last ?b1]" by (metis append_butlast_last_id append_Nil)
    then have "hd ?b1 = last ?b1" by (metis list.sel(1))
    with h1 d assms(4) show False by simp
  qed
  have l2: "?n - last ?b2 \<noteq> 2"
  proof (cases "?n - last ?b1 = 2")
    case True
    with ne2 have "butlast ?b1 \<noteq> []" by simp
    from strict_butlast_last [OF s1 this] True show ?thesis by simp
  next
    case False
    then show ?thesis by simp
  qed
  have "normalize_bar_pos (?b2 @ [?n]) p_evs = Inr (?b2 @ [?n])"
    using ne2 l2 by (simp add: normalize_bar_pos_unfold)
  with n show ?thesis by simp
qed

text \<open>A piece of five tokens with bars at 0 and 3: the trailing two-token bar is dropped,
  and the normalized pair is a fixed point.\<close>

theorem normalize_idempotent_witness:
  "normalize_bar_pos [0, 3] [1, 2, 3, 4, 5 :: nat] = Inr [0, 5]
   \<and> sorted_wrt (<) [0, 3 :: int] \<and> hd [0, 3 :: int] = 0 \<and> length [1, 2, 3, 4, 5 :: nat] \<noteq> 2
   \<and> normalize_bar_pos [0, 5] [1, 2, 3, 4, 5 :: nat] = Inr [0, 5]"
proof -
  have a: "normalize_bar_pos [0, 3] [1, 2, 3, 4, 5 :: nat] = Inr [0, 5]"
    by (simp add: normalize_bar_pos_unfold)
  have b: "sorted_wrt (<) [0, 3 :: int]" by simp
  have c: "hd [0, 3 :: int] = 0" by simp
  have d: "length [1, 2, 3, 4, 5 :: nat] \<noteq> 2" by simp
  from normalize_idempotent [OF a b c d] a b c d show ?thesis by blast
qed

subsection \<open>Pitch augmenter\<close>

lemma draw_until_fits_fits:
  assumes "draw_until_fits ds rnd lo hi k n = Some m"
  shows "min_pitch ds \<le> lo + m \<and> hi + m \<le> max_pitch ds"
  by (rule draw_until_fits.raw_induct
        [where P = "\<lambda>ds rnd lo hi k n m. min_pitch ds \<le> lo + m \<and> hi + m \<le> max_pitch ds",
         OF _ assms])
     (auto split: if_splits)

lemma nth_mod_mem: "xs \<noteq> [] \<Longrightarrow> xs ! (r mod length xs) \<in> set xs"
  by simp

lemma draw_until_fits_never:
  assumes "draw_until_fits ds rnd lo hi k n = Some m"
  shows "augment_range ds \<noteq> [] \<longrightarrow>
     (\<forall>n' \<in> set (augment_range ds). lo + n' < min_pitch ds \<or> hi + n' > max_pitch ds) \<longrightarrow>
     n \<notin> set (augment_range ds)"
proof (rule draw_until_fits.raw_induct
        [where P = "\<lambda>ds rnd lo hi k n m. augment_range ds \<noteq> [] \<longrightarrow>
           (\<forall>n' \<in> set (augment_range ds). lo + n' < min_pitch ds \<or> hi + n' > max_pitch ds) \<longrightarrow>
           n \<notin> set (augment_range ds)",
         OF _ assms], intro impI notI)
  fix f ds rnd lo hi k n m
  assume IH: "\<And>ds rnd lo hi k n m. f ds rnd lo hi k n = Some m \<Longrightarrow>
      augment_range ds \<noteq> [] \<longrightarrow>
      (\<forall>n' \<in> set (augment_range ds). lo + n' < min_pitch ds \<or> hi + n' > max_pitch ds) \<longrightarrow>
      n \<notin> set (augment_range ds)"
    and body: "(if lo + n < min_pitch ds \<or> max_pitch ds < hi + n
          then f ds rnd lo hi (Suc k) (augment_range ds ! (rnd k mod length (augment_range ds)))
          else Some n) = Some m"
    and ne: "augment_range ds \<noteq> []"
    and inf: "\<forall>n' \<in> set (augment_range ds). lo + n' < min_pitch ds \<or> hi + n' > max_pitch ds"
    and mem: "n \<in> set (augment_range ds)"
  from inf mem have "lo + n < min_pitch ds \<or> max_pitch ds < hi + n" by blast
  with body have
    "f ds rnd lo hi (Suc k) (augment_range ds ! (rnd k mod length (augment_range ds))) = Some m"
    by simp
  from IH [OF this] ne inf nth_mod_mem [OF ne] show False by blast
qed

lemma draw_until_fits_infeasible:
  assumes "\<forall>n' \<in> set (augment_range ds). lo + n' < min_pitch ds \<or> hi + n' > max_pitch ds"
    and "n \<in> set (augment_range ds)"
  shows "draw_until_fits ds rnd lo hi k n = None"
proof (cases "draw_until_fits ds rnd lo hi k n")
  case None
  then show ?thesis .
next
  case (Some m)
  from draw_until_fits_never [OF Some] assms show ?thesis by auto
qed

lemma extreme_pitch_loop_bounds:
  "extreme_pitch_loop ios evs (low, high) = Inr (lo, hi) \<Longrightarrow>
     lo \<le> low \<and> high \<le> hi \<and>
     (\<forall>ev \<in> set evs. \<forall>p. ev_name ev = ''Note_Pitch'' \<longrightarrow> ev_value ev = IntV p \<longrightarrow> lo \<le> p \<and> p \<le> hi)"
proof (induction evs arbitrary: low high)
  case Nil
  then show ?case by simp
next
  case (Cons ev evs)
  show ?case
  proof (cases "ev_name ev = ''Note_Pitch''")
    case True
    with Cons.prems obtain p where p: "py_int ios (ev_value ev) = Inr p"
      and r: "extreme_pitch_loop ios evs (min low p, max high p) = Inr (lo, hi)"
      by (auto simp: ebind_eq_Inr)
    from Cons.IH [OF r] p True show ?thesis
      by (auto simp: py_int_def)
  next
    case False
    with Cons.prems have "extreme_pitch_loop ios evs (low, high) = Inr (lo, hi)" by simp
    from Cons.IH [OF this] False show ?thesis by auto
  qed
qed

lemma transpose_loop_pointwise:
  "transpose_loop evs n = Inr out \<Longrightarrow>
     length out = length evs \<and> (\<forall>i < length evs. transpose_event (evs ! i) n = Inr (out ! i))"
proof (induction evs arbitrary: out)
  case Nil
  then show ?case by simp
next
  case (Cons ev evs)
  from Cons.prems obtain ev' rest' where e: "transpose_event ev n = Inr ev'"
    and r: "transpose_loop evs n = Inr rest'" and o: "out = ev' # rest'"
    by (auto simp: ebind_eq_Inr)
  from Cons.IH [OF r] e o show ?case
    by (auto simp: nth_Cons split: nat.splits)
qed

lemma transpose_event_note:
  "transpose_event ev n = Inr ev' \<Longrightarrow> ev_name ev = ''Note_Pitch'' \<Longrightarrow>
     \<exists>p. ev_value ev = IntV p \<and> ev' = \<lparr>ev_name = ''Note_Pitch'', ev_value = IntV (p + n)\<rparr>"
  by (auto simp: transpose_event_def split: pyval.splits)

lemma transpose_chord_name:
  "transpose_chord ev n = Inr ev' \<Longrightarrow> ev_name ev' = ev_name ev"
  by (cases "ev_value ev")
     (auto simp: transpose_chord_def get_chord_tone_def ebind_eq_Inr Let_def split: if_splits)

lemma transpose_event_name:
  "transpose_event ev n = Inr ev' \<Longrightarrow> ev_name ev' = ev_name ev"
  by (auto simp: transpose_event_def transpose_chord_name split: if_splits pyval.splits)

lemma transpose_event_no_chord:
  "ev_name ev = ''Chord'' \<Longrightarrow> ev_value ev = StrV ''N_N'' \<Longrightarrow> transpose_event ev n = Inr ev"
  by (simp add: transpose_event_def transpose_chord_def)

lemma transpose_event_other:
  "ev_name ev \<noteq> ''Note_Pitch'' \<Longrightarrow> ev_name ev \<noteq> ''Chord'' \<Longrightarrow> transpose_event ev n = Inr ev"
  by (simp add: transpose_event_def)


text \<open>
  C6: whenever \<^verbatim>\<open>pitch_augment\<close> returns, the output list has the length of the input;
  every \<^verbatim>\<open>Note_Pitch\<close> event of the output carries an integer within
  [\<open>min_pitch\<close>, \<open>max_pitch\<close>]; every \<^verbatim>\<open>Chord\<close> event with the value \<^verbatim>\<open>N_N\<close> is
  unchanged; and every event that is neither a \<^verbatim>\<open>Note_Pitch\<close> nor a \<^verbatim>\<open>Chord\<close> event
  is unchanged.
\<close>

theorem pitch_augment_returns:
  assumes "pitch_augment int_of_str ds rnd bar_events = Some (Inr out)"
  shows "length out = length bar_events
    \<and> (\<forall>i < length out. ev_name (out ! i) = ''Note_Pitch'' \<longrightarrow>
          (\<exists>p. ev_value (out ! i) = IntV p \<and> min_pitch ds \<le> p \<and> p \<le> max_pitch ds))
    \<and> (\<forall>i < length bar_events. ev_name (bar_events ! i) = ''Chord'' \<longrightarrow>
          ev_value (bar_events ! i) = StrV ''N_N'' \<longrightarrow> out ! i = bar_events ! i)
    \<and> (\<forall>i < length bar_events. ev_name (bar_events ! i) \<noteq> ''Note_Pitch'' \<longrightarrow>
          ev_name (bar_events ! i) \<noteq> ''Chord'' \<longrightarrow> out ! i = bar_events ! i)"
proof -
  from assms obtain lo hi n0 n where
    ext: "check_extreme_pitch int_of_str bar_events = Inr (lo, hi)"
    and drw: "draw_until_fits ds rnd lo hi 1 n0 = Some n"
    and tr: "transpose_events bar_events n = Inr out"
    by (auto simp: pitch_augment_def split: sum.splits option.splits)
  from tr have loop: "transpose_loop bar_events n = Inr out"
    by (auto simp: transpose_events_def ebind_eq_Inr split: if_splits)
  from transpose_loop_pointwise [OF loop] have len: "length out = length bar_events"
    and pt: "\<And>i. i < length bar_events \<Longrightarrow> transpose_event (bar_events ! i) n = Inr (out ! i)"
    by auto
  from draw_until_fits_fits [OF drw] have fit: "min_pitch ds \<le> lo + n" "hi + n \<le> max_pitch ds"
    by auto
  from extreme_pitch_loop_bounds [OF ext [unfolded check_extreme_pitch_def]]
  have bnd: "\<And>ev p. ev \<in> set bar_events \<Longrightarrow> ev_name ev = ''Note_Pitch'' \<Longrightarrow>
      ev_value ev = IntV p \<Longrightarrow> lo \<le> p \<and> p \<le> hi"
    by blast
  have nts: "\<exists>p. ev_value (out ! i) = IntV p \<and> min_pitch ds \<le> p \<and> p \<le> max_pitch ds"
    if i: "i < length out" and nm: "ev_name (out ! i) = ''Note_Pitch''" for i
  proof -
    from i len have i': "i < length bar_events" by simp
    from transpose_event_name [OF pt [OF i']] nm
    have nm': "ev_name (bar_events ! i) = ''Note_Pitch''" by simp
    from transpose_event_note [OF pt [OF i'] nm'] obtain p where
      v: "ev_value (bar_events ! i) = IntV p" and o: "ev_value (out ! i) = IntV (p + n)"
      by auto
    from bnd [OF nth_mem [OF i'] nm' v] fit have "min_pitch ds \<le> p + n \<and> p + n \<le> max_pitch ds"
      by simp
    with o show ?thesis by simp
  qed
  have chords: "out ! i = bar_events ! i"
    if "i < length bar_events" "ev_name (bar_events ! i) = ''Chord''"
      "ev_value (bar_events ! i) = StrV ''N_N''" for i
    using pt [OF that(1)] transpose_event_no_chord [OF that(2,3), of n] by simp
  have others: "out ! i = bar_events ! i"
    if "i < length bar_events" "ev_name (bar_events ! i) \<noteq> ''Note_Pitch''"
      "ev_name (bar_events ! i) \<noteq> ''Chord''" for i
    using pt [OF that(1)] transpose_event_other [OF that(2,3), of n] by simp
  from len nts chords others show ?thesis by blast
qed

lemma demo_extreme: "check_extreme_pitch (\<lambda>_. None) demo_events = Inr (60, 64)"
  by (simp add: check_extreme_pitch_def demo_events_def py_int_def)

lemma demo_draw: "draw_until_fits default_dataset (\<lambda>_. 8) 60 64 (Suc 0) 2 = Some 2"
  by (subst draw_until_fits.simps) (simp add: default_dataset_def)

lemma demo_replace: "str_replace ''C_'' ''D_'' ''C_maj'' = ''D_maj''"
  by (simp add: str_replace.simps)

lemma demo_transpose: "transpose_events demo_events 2 =
   Inr demo_augmented"
  by (simp add: transpose_events_def demo_events_def demo_augmented_def transpose_event_def transpose_chord_def
        get_chord_tone_def dict_get_def KEY_TO_IDX_def IDX_TO_KEY_def demo_replace)

lemma demo_augment: "pitch_augment (\<lambda>_. None) default_dataset (\<lambda>_. 8) demo_events =
   Some (Inr demo_augmented)"
proof -
  have c: "random_choice 8 (augment_range default_dataset) = Inr 2"
    by (simp add: random_choice_def default_dataset_def)
  show ?thesis
    by (simp add: pitch_augment_def demo_extreme c demo_draw demo_transpose)
qed

text \<open>
  With the default band and the drawn shift 2 the demo window is returned shifted: the
  note at index 2 is in the band, the \<^verbatim>\<open>N_N\<close> chord at index 1 and the bar event at
  index 0 are unchanged.
\<close>

theorem pitch_augment_returns_witness:
  "pitch_augment (\<lambda>_. None) default_dataset (\<lambda>_. 8) demo_events = Some (Inr demo_augmented)
   \<and> length demo_augmented = length demo_events
   \<and> 2 < length demo_augmented \<and> ev_name (demo_augmented ! 2) = ''Note_Pitch''
   \<and> (\<exists>p. ev_value (demo_augmented ! 2) = IntV p
          \<and> min_pitch default_dataset \<le> p \<and> p \<le> max_pitch default_dataset)
   \<and> 1 < length demo_events \<and> ev_name (demo_events ! 1) = ''Chord''
   \<and> ev_value (demo_events ! 1) = StrV ''N_N'' \<and> demo_augmented ! 1 = demo_events ! 1
   \<and> 0 < length demo_events \<and> ev_name (demo_events ! 0) \<noteq> ''Note_Pitch''
   \<and> ev_name (demo_events ! 0) \<noteq> ''Chord'' \<and> demo_augmented ! 0 = demo_events ! 0"
proof -
  note r = pitch_augment_returns [OF demo_augment]
  have a: "2 < length demo_augmented" "ev_name (demo_augmented ! 2) = ''Note_Pitch''"
    by (simp_all add: demo_augmented_def)
  have b: "1 < length demo_events" "ev_name (demo_events ! 1) = ''Chord''"
    "ev_value (demo_events ! 1) = StrV ''N_N''"
    by (simp_all add: demo_events_def)
  have c: "0 < length demo_events" "ev_name (demo_events ! 0) \<noteq> ''Note_Pitch''"
    "ev_name (demo_events ! 0) \<noteq> ''Chord''"
    by (simp_all add: demo_events_def)
  note r1 = r [THEN conjunct1]
  note r2 = r [THEN conjunct2, THEN conjunct1, rule_format, OF a]
  note r3 = r [THEN conjunct2, THEN conjunct2, THEN conjunct1, rule_format, OF b]
  note r4 = r [THEN conjunct2, THEN conjunct2, THEN conjunct2, rule_format, OF c]
  from demo_augment r1 a r2 b r3 c r4 show ?thesis by (intro conjI)
qed

text \<open>
  C5, at a window whose only note has pitch 10, under the default band 22..107 and the
  default shifts -6..6: no shift brings the note into the band, and for every random
  source \<^verbatim>\<open>pitch_augment\<close> never returns; it neither raises nor skips the window.
\<close>

theorem pitch_augment_hangs:
  "pitch_augment int_of_str default_dataset rnd [\<lparr>ev_name = ''Note_Pitch'', ev_value = IntV 10\<rparr>] = None"
proof -
  have e: "check_extreme_pitch int_of_str [\<lparr>ev_name = ''Note_Pitch'', ev_value = IntV 10\<rparr>]
      = Inr (10, 10)"
    by (simp add: check_extreme_pitch_def py_int_def)
  have ne: "augment_range default_dataset \<noteq> []" by (simp add: default_dataset_def)
  have inf: "\<forall>n' \<in> set (augment_range default_dataset).
      10 + n' < min_pitch default_dataset \<or> 10 + n' > max_pitch default_dataset"
    by (simp add: default_dataset_def)
  from ne obtain n0 where c: "random_choice (rnd 0) (augment_range default_dataset) = Inr n0"
    and m: "n0 \<in> set (augment_range default_dataset)"
    by (simp add: random_choice_def)
  from draw_until_fits_infeasible [OF inf m]
  have "draw_until_fits default_dataset rnd 10 10 1 n0 = None" .
  with e c show ?thesis by (simp add: pitch_augment_def)
qed


subsection \<open>Window sampler and tensor builder\<close>

lemma length_py_slice_window:
  "0 \<le> a \<Longrightarrow> a + int n \<le> int (length xs) \<Longrightarrow> length (py_slice xs a (a + int n)) = n"
  by (auto simp: py_slice_def slice_bound_def)

lemma pick_st_bar_range:
  assumes "pick_st_bar ds r bp = Inr st" and "length bp > model_max_bars ds"
    and "\<forall>a. appoint_st_bar ds = Some a \<longrightarrow> 0 \<le> a"
  shows "0 \<le> st \<and> st + int (model_max_bars ds) < int (length bp)"
proof (cases "appoint_st_bar ds")
  case None
  let ?n = "length bp - model_max_bars ds"
  from assms(2) have n: "0 < ?n" by simp
  from assms(1) None assms(2) have "st = int (r mod ?n)"
    using n by (simp add: pick_st_bar_def random_choice_def)
  moreover have "r mod ?n < ?n" using n by simp
  ultimately show ?thesis using assms(2) by linarith
next
  case (Some a)
  with assms show ?thesis
    by (auto simp: pick_st_bar_def split: if_splits)
qed

lemma get_sample_from_file_length:
  assumes "get_sample_from_file ds r idx = Inr (evs, st, bp, n)"
    and "\<forall>a. appoint_st_bar ds = Some a \<longrightarrow> 0 \<le> a"
  shows "length bp = model_max_bars ds"
proof -
  from assms(1) obtain stored bar_pos where
    pk: "pick_st_bar ds r bar_pos = Inr st"
    and rest: "(if length bar_pos > model_max_bars ds
       then ebind (py_index bar_pos st) (\<lambda>first.
            ebind (py_index bar_pos (st + int (model_max_bars ds))) (\<lambda>stop.
              Inr (py_slice (snd stored) first stop, st,
                   map (\<lambda>b. b - first) (py_slice bar_pos st (st + int (model_max_bars ds))),
                   model_max_bars ds)))
       else ebind (py_index bar_pos (- 1)) (\<lambda>final.
              let picked_bar_pos = bar_pos @ replicate (model_max_bars ds - length bar_pos) final
              in if length picked_bar_pos = model_max_bars ds
                 then Inr (snd stored, st, picked_bar_pos, length bar_pos)
                 else Inl (AssertionError ''len(picked_bar_pos) == self.model_max_bars'')))
       = Inr (evs, st, bp, n)"
    by (auto simp: get_sample_from_file_def ebind_eq_Inr split: if_splits)
  show ?thesis
  proof (cases "length bar_pos > model_max_bars ds")
    case True
    from pick_st_bar_range [OF pk True assms(2)]
    have "length (py_slice bar_pos st (st + int (model_max_bars ds))) = model_max_bars ds"
      by (intro length_py_slice_window) auto
    with rest True show ?thesis by (auto simp: ebind_eq_Inr)
  next
    case False
    with rest show ?thesis by (auto simp: ebind_eq_Inr Let_def split: if_splits)
  qed
qed

lemma get_sample_from_file_Inl: "get_sample_from_file ds r idx = Inl e \<Longrightarrow> e \<noteq> enc_assertion"
  by (auto simp: get_sample_from_file_def pick_st_bar_def ebind_eq_Inl enc_assertion_def Let_def
        dest!: py_index_Inl random_choice_Inl split: if_splits option.splits)

text \<open>The sampler returns on a dataset as \<^verbatim>\<open>build_dataset\<close> leaves it.\<close>

lemma normalize_bar_pos_nonempty: "normalize_bar_pos bar_pos p_evs = Inr b \<Longrightarrow> b \<noteq> []"
  by (auto simp: normalize_bar_pos_def ebind_eq_Inr Let_def)

lemma build_dataset_Inr:
  "build_dataset ps = Inr bs \<Longrightarrow> length bs = length ps \<and> (\<forall>b \<in> set bs. b \<noteq> [])"
proof (induction ps arbitrary: bs)
  case Nil
  then show ?case by simp
next
  case (Cons p ps)
  obtain bar_pos p_evs where p: "p = (bar_pos, p_evs)" by (cases p)
  from Cons.prems p obtain b bs' where
    b: "normalize_bar_pos bar_pos p_evs = Inr b" and r: "build_dataset ps = Inr bs'"
    and e: "bs = b # bs'"
    by (auto simp: ebind_eq_Inr)
  from Cons.IH [OF r] normalize_bar_pos_nonempty [OF b] e show ?case by simp
qed

lemma py_slice_window:
  assumes "0 \<le> a" "a + int n \<le> int (length xs)"
  shows "py_slice xs a (a + int n) = take n (drop (nat a) xs)"
proof -
  from assms have 1: "slice_bound (length xs) a = nat a" by (auto simp: slice_bound_def)
  from assms have 2: "slice_bound (length xs) (a + int n) = nat a + n"
    by (auto simp: slice_bound_def nat_add_distrib)
  show ?thesis by (simp add: py_slice_def 1 2 take_drop add.commute)
qed

lemma pick_st_bar_value:
  assumes "case appoint_st_bar ds of None \<Rightarrow> True | Some a \<Rightarrow> 0 \<le> a"
  shows "\<exists>st. pick_st_bar ds r bp = Inr st
     \<and> st = (case appoint_st_bar ds of
               None \<Rightarrow> if model_max_bars ds < length bp
                        then int (r mod (length bp - model_max_bars ds)) else 0
             | Some a \<Rightarrow> if a < int (length bp) - int (model_max_bars ds) then a else 0)
     \<and> 0 \<le> st
     \<and> (if model_max_bars ds < length bp then st + int (model_max_bars ds) < int (length bp)
         else st = 0)"
proof (cases "appoint_st_bar ds")
  case None
  show ?thesis
  proof (cases "model_max_bars ds < length bp")
    case True
    let ?k = "length bp - model_max_bars ds"
    from True have k: "0 < ?k" by simp
    then have "r mod ?k < ?k" by simp
    with True have "int (r mod ?k) + int (model_max_bars ds) < int (length bp)" by linarith
    with True None k show ?thesis
      by (simp add: pick_st_bar_def random_choice_def)
  next
    case False
    with None show ?thesis by (simp add: pick_st_bar_def)
  qed
next
  case (Some a)
  with assms show ?thesis by (auto simp: pick_st_bar_def)
qed

lemma get_sample_from_file_returns:
  fixes r :: nat
  assumes b: "build_dataset (pieces ds) = Inr (piece_bar_pos ds)"
    and i: "idx < length (pieces ds)"
    and a: "case appoint_st_bar ds of None \<Rightarrow> True | Some a \<Rightarrow> 0 \<le> a"
  defines "bp \<equiv> piece_bar_pos ds ! idx"
  defines "st \<equiv> (case appoint_st_bar ds of
               None \<Rightarrow> if model_max_bars ds < length bp
                        then int (r mod (length bp - model_max_bars ds)) else 0
             | Some a \<Rightarrow> if a < int (length bp) - int (model_max_bars ds) then a else 0)"
  shows "0 \<le> st"
    and "model_max_bars ds < length bp \<Longrightarrow> st + int (model_max_bars ds) < int (length bp)"
    and "\<not> model_max_bars ds < length bp \<Longrightarrow> st = 0"
    and "get_sample_from_file ds r idx =
      (if model_max_bars ds < length bp
       then Inr (py_slice (snd (pieces ds ! idx)) (bp ! nat st) (bp ! (nat st + model_max_bars ds)),
                 st, map (\<lambda>b. b - bp ! nat st) (take (model_max_bars ds) (drop (nat st) bp)),
                 model_max_bars ds)
       else Inr (snd (pieces ds ! idx), st,
                 bp @ replicate (model_max_bars ds - length bp) (last bp), length bp))"
proof -
  from build_dataset_Inr [OF b] i have l: "idx < length (piece_bar_pos ds)"
    and ne: "bp \<noteq> []" by (simp_all add: bp_def)
  from pick_st_bar_value [OF a, of r bp] have
    pk: "pick_st_bar ds r bp = Inr st" and s0: "0 \<le> st"
    and s1: "if model_max_bars ds < length bp then st + int (model_max_bars ds) < int (length bp)
         else st = 0"
    by (simp_all add: st_def)
  from s0 show "0 \<le> st" .
  from s1 show "model_max_bars ds < length bp \<Longrightarrow> st + int (model_max_bars ds) < int (length bp)"
    by simp
  from s1 show "\<not> model_max_bars ds < length bp \<Longrightarrow> st = 0" by simp
  have p1: "py_index (pieces ds) (int idx) = Inr (pieces ds ! idx)" using i by (rule py_index_nat)
  have p2: "py_index (piece_bar_pos ds) (int idx) = Inr bp"
    unfolding bp_def using l by (rule py_index_nat)
  have head: "get_sample_from_file ds r idx =
      (if length bp > model_max_bars ds
       then ebind (py_index bp st) (\<lambda>first.
            ebind (py_index bp (st + int (model_max_bars ds))) (\<lambda>stop.
              Inr (py_slice (snd (pieces ds ! idx)) first stop, st,
                   map (\<lambda>b. b - first) (py_slice bp st (st + int (model_max_bars ds))),
                   model_max_bars ds)))
       else ebind (py_index bp (- 1)) (\<lambda>final.
              let picked_bar_pos = bp @ replicate (model_max_bars ds - length bp) final
              in if length picked_bar_pos = model_max_bars ds
                 then Inr (snd (pieces ds ! idx), st, picked_bar_pos, length bp)
                 else Inl (AssertionError ''len(picked_bar_pos) == self.model_max_bars'')))"
    by (simp only: get_sample_from_file_def p1 p2 pk ebind_Inr)
  show "get_sample_from_file ds r idx =
      (if model_max_bars ds < length bp
       then Inr (py_slice (snd (pieces ds ! idx)) (bp ! nat st) (bp ! (nat st + model_max_bars ds)),
                 st, map (\<lambda>b. b - bp ! nat st) (take (model_max_bars ds) (drop (nat st) bp)),
                 model_max_bars ds)
       else Inr (snd (pieces ds ! idx), st,
                 bp @ replicate (model_max_bars ds - length bp) (last bp), length bp))"
  proof (cases "model_max_bars ds < length bp")
    case True
    with s1 have hi: "st + int (model_max_bars ds) < int (length bp)" by simp
    from s0 hi have q1: "py_index bp st = Inr (bp ! nat st)" by (simp add: py_index_def)
    from s0 hi have q2: "py_index bp (st + int (model_max_bars ds))
        = Inr (bp ! (nat st + model_max_bars ds))"
      by (simp add: py_index_def nat_add_distrib)
    from s0 hi have q3: "py_slice bp st (st + int (model_max_bars ds))
        = take (model_max_bars ds) (drop (nat st) bp)"
      by (intro py_slice_window) simp_all
    from True show ?thesis by (simp add: head q1 q2 q3)
  next
    case False
    from ne have q: "py_index bp (- 1) = Inr (last bp)" by (simp add: py_index_last)
    from False show ?thesis by (simp add: head q Let_def)
  qed
qed

lemma py_int_Inl: "py_int ios v = Inl e \<Longrightarrow> e \<noteq> enc_assertion"
  by (auto simp: py_int_def enc_assertion_def split: pyval.splits option.splits)

lemma extreme_pitch_loop_Inl:
  "extreme_pitch_loop ios evs acc = Inl e \<Longrightarrow> e \<noteq> enc_assertion"
proof (induction evs arbitrary: acc)
  case Nil
  then show ?case by (cases acc) simp
next
  case (Cons ev evs)
  then show ?case
    by (cases acc) (auto simp: ebind_eq_Inl dest: py_int_Inl split: if_splits)
qed

lemma transpose_chord_Inl: "transpose_chord ev n = Inl e \<Longrightarrow> e \<noteq> enc_assertion"
  by (auto simp: transpose_chord_def get_chord_tone_def ebind_eq_Inl enc_assertion_def Let_def
        dest!: dict_get_Inl split: if_splits pyval.splits)

lemma transpose_event_Inl: "transpose_event ev n = Inl e \<Longrightarrow> e \<noteq> enc_assertion"
  by (auto simp: transpose_event_def dest: transpose_chord_Inl split: if_splits pyval.splits)
     (simp add: enc_assertion_def)+

lemma transpose_loop_Inl: "transpose_loop evs n = Inl e \<Longrightarrow> e \<noteq> enc_assertion"
  by (induction evs) (auto simp: ebind_eq_Inl dest: transpose_event_Inl)

lemma transpose_events_Inl: "transpose_events evs n = Inl e \<Longrightarrow> e \<noteq> enc_assertion"
  by (auto simp: transpose_events_def ebind_eq_Inl dest: transpose_loop_Inl split: if_splits)
     (simp add: enc_assertion_def)

lemma pitch_augment_Inl:
  "pitch_augment ios ds rnd evs = Some (Inl e) \<Longrightarrow> e \<noteq> enc_assertion"
  by (auto simp: pitch_augment_def check_extreme_pitch_def
        dest: extreme_pitch_loop_Inl transpose_events_Inl dest!: random_choice_Inl
        split: sum.splits option.splits prod.splits)
     (simp add: enc_assertion_def)

lemma attr_classes_Inl: "attr_classes ds store idx st = Inl e \<Longrightarrow> e \<noteq> enc_assertion"
  by (auto simp: attr_classes_def ebind_eq_Inl Let_def enc_assertion_def
        dest!: py_index_Inl split: if_splits)

lemma broadcast_labels_Inl:
  "broadcast_labels ps i pc rc ex = Inl e \<Longrightarrow> e \<noteq> enc_assertion"
proof (induction ps arbitrary: i ex)
  case Nil
  then show ?case by simp
next
  case (Cons p ps)
  then show ?case
    by (cases p) (auto simp: ebind_eq_Inl enc_assertion_def dest!: py_index_Inl)
qed

lemma getitem_labels_Inl: "getitem_labels ds idx st bp = Inl e \<Longrightarrow> e \<noteq> enc_assertion"
  by (auto simp: getitem_labels_def get_attr_classes_def expand_labels_def ebind_eq_Inl
        dest: attr_classes_Inl broadcast_labels_Inl split: if_splits)

lemma convert_event_Inl: "convert_event evs e2i = Inl e \<Longrightarrow> e \<noteq> enc_assertion"
  by (auto simp: convert_event_def enc_assertion_def dest!: emap_Inl dict_get_Inl split: if_splits)

lemma enc_step_Inl: "enc_step ds toks b sted d = Inl e \<Longrightarrow> e \<noteq> enc_assertion"
  by (auto simp: enc_step_def Let_def enc_assertion_def split: if_splits)

lemma enc_loop_Inl: "enc_loop ds toks ps b d = Inl e \<Longrightarrow> e \<noteq> enc_assertion"
  by (induction ps arbitrary: b d) (auto simp: ebind_eq_Inl dest: enc_step_Inl)

lemma get_encoder_input_data_no_assert:
  "length bar_positions = model_max_bars ds + 1 \<Longrightarrow>
     get_encoder_input_data ds bar_positions toks \<noteq> Inl enc_assertion"
  by (auto simp: get_encoder_input_data_def dest: enc_loop_Inl)

lemma getitem_build_no_assert:
  assumes "length picked = model_max_bars ds"
  shows "getitem_build ds idx evs st picked n \<noteq> Inl enc_assertion"
proof
  assume a: "getitem_build ds idx evs st picked n = Inl enc_assertion"
  have l: "length (picked @ [int (length toks)]) = model_max_bars ds + 1" for toks :: "nat list"
    using assms by simp
  from a show False
    using get_encoder_input_data_no_assert [OF l]
    by (auto simp: getitem_build_def ebind_eq_Inl Let_def
          dest: getitem_labels_Inl convert_event_Inl split: if_splits)
       (simp_all add: enc_assertion_def)
qed

text \<open>
  C10, amended: on a dataset whose boundary lists are those that \<^verbatim>\<open>build_dataset\<close> made
  of its pieces, for every piece of the dataset and every random draw, with no appointed
  start bar or one that is not negative: \<^verbatim>\<open>get_sample_from_file\<close> returns. In the
  truncating branch the start bar \<open>st\<close> is the draw or the appointed bar (0 when that is
  too late), the window is the \<^verbatim>\<open>model_max_bars\<close> boundaries from \<open>st\<close> on, shifted to
  start at 0, with the tokens between the boundaries \<open>st\<close> and \<open>st + model_max_bars\<close>. In
  the padding branch it is the whole piece from bar 0, the boundary list extended with
  its last entry. In both branches the sampler returns exactly \<^verbatim>\<open>model_max_bars\<close>
  boundary entries, so with the appended token count the list has
  \<^verbatim>\<open>model_max_bars + 1\<close> entries; \<^verbatim>\<open>__getitem__\<close> does not fail with the assertion of
  \<^verbatim>\<open>get_encoder_input_data\<close>, and every sample it returns carries
  \<^verbatim>\<open>model_max_bars + 1\<close> boundaries.
\<close>

theorem bar_positions_assertion_never_fails:
  assumes "build_dataset (pieces ds) = Inr (piece_bar_pos ds)"
    and "idx < length (pieces ds)"
    and "case appoint_st_bar ds of None \<Rightarrow> True | Some a \<Rightarrow> 0 \<le> a"
  shows "(let bp = piece_bar_pos ds ! idx; m = model_max_bars ds;
              st = (case appoint_st_bar ds of
                      None \<Rightarrow> if m < length bp then int (r mod (length bp - m)) else 0
                    | Some a \<Rightarrow> if a < int (length bp) - int m then a else 0);
              picked = (if m < length bp
                        then map (\<lambda>b. b - bp ! nat st) (take m (drop (nat st) bp))
                        else bp @ replicate (m - length bp) (last bp))
          in 0 \<le> st \<and> (m < length bp \<longrightarrow> st + int m < int (length bp))
             \<and> get_sample_from_file ds r idx
                 = Inr (if m < length bp
                        then py_slice (snd (pieces ds ! idx)) (bp ! nat st) (bp ! (nat st + m))
                        else snd (pieces ds ! idx),
                        st, picked, if m < length bp then m else length bp)
             \<and> length picked = m
             \<and> (\<forall>bar_tokens :: nat list.
                  length (picked @ [int (length bar_tokens)]) = m + 1))
     \<and> getitem int_of_str ds r rnd idx \<noteq> Some (Inl enc_assertion)
     \<and> (\<forall>s. getitem int_of_str ds r rnd idx = Some (Inr s) \<longrightarrow>
            length (s_bar_pos s) = model_max_bars ds + 1)"
proof -
  from assms(3) have ap: "\<forall>a. appoint_st_bar ds = Some a \<longrightarrow> 0 \<le> a" by auto
  define bp where "bp = piece_bar_pos ds ! idx"
  define m where "m = model_max_bars ds"
  define st where "st = (case appoint_st_bar ds of
                      None \<Rightarrow> if m < length bp then int (r mod (length bp - m)) else 0
                    | Some a \<Rightarrow> if a < int (length bp) - int m then a else 0)"
  define picked where "picked = (if m < length bp
                        then map (\<lambda>b. b - bp ! nat st) (take m (drop (nat st) bp))
                        else bp @ replicate (m - length bp) (last bp))"
  note ret = get_sample_from_file_returns [OF assms, of r, folded bp_def m_def, folded st_def]
  have g: "get_sample_from_file ds r idx
      = Inr (if m < length bp
             then py_slice (snd (pieces ds ! idx)) (bp ! nat st) (bp ! (nat st + m))
             else snd (pieces ds ! idx),
             st, picked, if m < length bp then m else length bp)"
    by (simp add: ret(4) picked_def)
  from get_sample_from_file_length [OF g ap] have len: "length picked = m" by (simp add: m_def)
  have 1: "0 \<le> st \<and> (m < length bp \<longrightarrow> st + int m < int (length bp))
      \<and> get_sample_from_file ds r idx
          = Inr (if m < length bp
                 then py_slice (snd (pieces ds ! idx)) (bp ! nat st) (bp ! (nat st + m))
                 else snd (pieces ds ! idx),
                 st, picked, if m < length bp then m else length bp)
      \<and> length picked = m
      \<and> (\<forall>bar_tokens :: nat list. length (picked @ [int (length bar_tokens)]) = m + 1)"
    using ret(1,2) g len by simp
  have 2: "getitem int_of_str ds r rnd idx \<noteq> Some (Inl enc_assertion)"
  proof
    assume a: "getitem int_of_str ds r rnd idx = Some (Inl enc_assertion)"
    from len have "length picked = model_max_bars ds" by (simp add: m_def)
    from a g getitem_build_no_assert [OF this] show False
      by (auto simp: getitem_def dest: pitch_augment_Inl split: if_splits option.splits sum.splits)
  qed
  have 3: "\<forall>s. getitem int_of_str ds r rnd idx = Some (Inr s) \<longrightarrow>
            length (s_bar_pos s) = model_max_bars ds + 1"
  proof (intro allI impI)
    fix s
    assume a: "getitem int_of_str ds r rnd idx = Some (Inr s)"
    with g obtain evs' n where b: "getitem_build ds idx evs' st picked n = Inr s"
      by (auto simp: getitem_def split: sum.splits option.splits if_splits)
    from b obtain toks :: "nat list" where "s_bar_pos s = picked @ [int (length toks)]"
      by (auto simp: getitem_build_def ebind_eq_Inr Let_def split: if_splits)
    with len show "length (s_bar_pos s) = model_max_bars ds + 1" by (simp add: m_def)
  qed
  from conjI [OF 1 conjI [OF 2 3]] show ?thesis
    unfolding Let_def bp_def m_def st_def picked_def .
qed

subsection \<open>The example pieces\<close>

lemma two_bar_build: "build_dataset (pieces two_bar_dataset) = Inr (piece_bar_pos two_bar_dataset)"
  by (simp add: two_bar_dataset_def two_bar_events_def normalize_bar_pos_unfold)

lemma two_bar_sampled:
  "get_sample_from_file two_bar_dataset r 0 = Inr (two_bar_events, 0, [0, 3], 2)"
  by (simp add: get_sample_from_file_def two_bar_dataset_def pick_st_bar_def random_choice_def
        py_index_def py_slice_def slice_bound_def two_bar_events_def)

lemma two_bar_tokens: "convert_event two_bar_events demo_vocab = Inr [0, 2, 3, 0, 4, 1]"
  by (simp add: convert_event_def two_bar_events_def demo_vocab_def dict_get_def py_str_def
        format_int_def format_nat.simps digit_char_def)

lemma two_bar_labels:
  "getitem_labels two_bar_dataset 0 0 [0, 3]
     = Inr (([1, 2], [3, 4]), ([1, 1, 1, 0, 0, 0, 0, 0], [3, 3, 3, 0, 0, 0, 0, 0]))"
  by (simp add: getitem_labels_def get_attr_classes_def attr_classes_def expand_labels_def
        two_bar_dataset_def py_index_def py_slice_def py_slice_from_def slice_bound_def
        assign_slice_def Let_def numeral_eq_Suc)

lemma two_bar_enc:
  "get_encoder_input_data two_bar_dataset [0, 3, 6] [0, 2, 3, 0, 4, 1]
     = Inr \<lparr>padded_enc_input = [[0, 2, 3, 5], [0, 4, 1, 5]],
            enc_padding_mask = [[False, False, False, True], [False, False, False, True]],
            enc_lens = [3, 3]\<rparr>"
  by code_simp

lemma two_bar_getitem:
  "getitem int_of_str two_bar_dataset r rnd 0 = Some (Inr two_bar_sample)"
proof -
  have b: "getitem_build two_bar_dataset 0 two_bar_events 0 [0, 3] 2 = Inr two_bar_sample"
    using two_bar_tokens two_bar_enc
    by (simp add: getitem_build_def two_bar_labels two_bar_sample_def Let_def)
       (simp add: two_bar_dataset_def pad_sequence_def py_slice_def py_slice_from_def
          slice_bound_def numeral_eq_Suc)
  have a: "\<not> do_augment two_bar_dataset" by (simp add: two_bar_dataset_def)
  show ?thesis by (simp add: getitem_def two_bar_sampled a b)
qed

lemma one_bar_build: "build_dataset (pieces one_bar_dataset) = Inr (piece_bar_pos one_bar_dataset)"
  by (simp add: one_bar_dataset_def one_bar_events_def normalize_bar_pos_unfold)

lemma one_bar_sampled:
  "get_sample_from_file one_bar_dataset r 0 = Inr (one_bar_events, 0, [0, 5] @ replicate 14 5, 2)"
proof -
  have "replicate (16 - 2) (5::int) = replicate 14 5" by simp
  then show ?thesis
    by (simp add: get_sample_from_file_def one_bar_dataset_def default_dataset_def pick_st_bar_def
        py_index_def Let_def)
qed


lemma late_start_sampled:
  "get_sample_from_file late_start_dataset r 0 = Inr ([], - 1, [], 2)"
  by (simp add: get_sample_from_file_def late_start_dataset_def two_bar_dataset_def
        pick_st_bar_def py_index_def py_slice_def slice_bound_def two_bar_events_def)

lemma late_start_getitem:
  "getitem int_of_str late_start_dataset r rnd 0 = Some (Inl IndexError)"
proof -
  have l: "getitem_labels late_start_dataset 0 (- 1) [] = Inr (([0, 0], [0, 0]),
      (replicate 8 0, replicate 8 0))"
    by (simp add: getitem_labels_def get_attr_classes_def attr_classes_def expand_labels_def
        late_start_dataset_def two_bar_dataset_def py_index_def py_slice_def py_slice_from_def
        slice_bound_def Let_def numeral_eq_Suc)
  have b: "getitem_build late_start_dataset 0 [] (- 1) [] 2 = Inl IndexError"
    by (simp add: getitem_build_def l convert_event_def)
  have a: "\<not> do_augment late_start_dataset"
    by (simp add: late_start_dataset_def two_bar_dataset_def)
  show ?thesis by (simp add: getitem_def late_start_sampled a b)
qed

lemma crossed_build:
  "build_dataset (pieces crossed_dataset) = Inr (piece_bar_pos crossed_dataset)"
  by (simp add: crossed_dataset_def two_bar_dataset_def crossed_events_def
        normalize_bar_pos_unfold)

lemma crossed_sampled:
  "get_sample_from_file crossed_dataset r 0 = Inr (crossed_events, - 2, [], 2)"
  by (simp add: get_sample_from_file_def crossed_dataset_def two_bar_dataset_def
        pick_st_bar_def py_index_def py_slice_def slice_bound_def crossed_events_def)

lemma crossed_getitem:
  "getitem int_of_str crossed_dataset r rnd 0 = Some (Inl enc_assertion)"
proof -
  have b: "getitem_build crossed_dataset 0 crossed_events (- 2) [] 2 = Inl enc_assertion"
    by code_simp
  have a: "\<not> do_augment crossed_dataset"
    by (simp add: crossed_dataset_def two_bar_dataset_def)
  show ?thesis by (simp add: getitem_def crossed_sampled a b)
qed

text \<open>
  C10 as stated, for any appointed start bar on any piece, fails. On the two-bar piece
  with the start bar \<open>-1\<close> appointed, the sampler is in its truncating branch and returns
  no boundary entry at all, where \<^verbatim>\<open>model_max_bars\<close> is 2; the window has no token, and
  \<^verbatim>\<open>__getitem__\<close> fails in the token conversion. On the piece whose stored boundaries
  are 5 and 0, with the start bar \<open>-2\<close> appointed, the sampler returns the three tokens
  with no boundary entry, the list passed to \<^verbatim>\<open>get_encoder_input_data\<close> has one entry,
  and the assertion fails.
\<close>

theorem negative_start_bar_breaks_window:
  "build_dataset (pieces late_start_dataset) = Inr (piece_bar_pos late_start_dataset)
   \<and> appoint_st_bar late_start_dataset = Some (- 1)
   \<and> model_max_bars late_start_dataset = 2
   \<and> get_sample_from_file late_start_dataset 0 0 = Inr ([], - 1, [], 2)
   \<and> getitem Map.empty late_start_dataset 0 id 0 = Some (Inl IndexError)
   \<and> build_dataset (pieces crossed_dataset) = Inr (piece_bar_pos crossed_dataset)
   \<and> appoint_st_bar crossed_dataset = Some (- 2)
   \<and> model_max_bars crossed_dataset = 2
   \<and> get_sample_from_file crossed_dataset 0 0 = Inr (crossed_events, - 2, [], 2)
   \<and> getitem Map.empty crossed_dataset 0 id 0 = Some (Inl enc_assertion)"
proof -
  have 1: "build_dataset (pieces late_start_dataset) = Inr (piece_bar_pos late_start_dataset)"
    using two_bar_build by (simp add: late_start_dataset_def)
  have 2: "appoint_st_bar late_start_dataset = Some (- 1)"
    "model_max_bars late_start_dataset = 2"
    by (simp_all add: late_start_dataset_def two_bar_dataset_def)
  have 3: "appoint_st_bar crossed_dataset = Some (- 2)" "model_max_bars crossed_dataset = 2"
    by (simp_all add: crossed_dataset_def two_bar_dataset_def)
  from 1 2 late_start_sampled [of 0] late_start_getitem [of Map.empty 0 id] crossed_build 3
    crossed_sampled [of 0] crossed_getitem [of Map.empty 0 id]
  show ?thesis by (intro conjI)
qed

text \<open>
  The two-bar example has no appointed start bar: every draw starts its window at bar 0,
  the sampler returns the two boundaries 0 and 3, and the sample carries three
  boundaries. The one-bar example is padded to 16 boundary entries.
\<close>

theorem bar_positions_assertion_never_fails_witness:
  "build_dataset (pieces two_bar_dataset) = Inr (piece_bar_pos two_bar_dataset)
   \<and> 0 < length (pieces two_bar_dataset)
   \<and> (case appoint_st_bar two_bar_dataset of None \<Rightarrow> True | Some a \<Rightarrow> 0 \<le> a)
   \<and> model_max_bars two_bar_dataset < length (piece_bar_pos two_bar_dataset ! 0)
   \<and> get_sample_from_file two_bar_dataset 0 0 = Inr (two_bar_events, 0, [0, 3], 2)
   \<and> length [0, 3 :: int] = model_max_bars two_bar_dataset
   \<and> length ([0, 3] @ [int (length [0, 2, 3, 0, 4, 1 :: nat])]) = model_max_bars two_bar_dataset + 1
   \<and> getitem (\<lambda>_. None) two_bar_dataset 0 (\<lambda>_. 0) 0 \<noteq> Some (Inl enc_assertion)
   \<and> getitem (\<lambda>_. None) two_bar_dataset 0 (\<lambda>_. 0) 0 = Some (Inr two_bar_sample)
   \<and> length (s_bar_pos two_bar_sample) = model_max_bars two_bar_dataset + 1
   \<and> build_dataset (pieces one_bar_dataset) = Inr (piece_bar_pos one_bar_dataset)
   \<and> \<not> model_max_bars one_bar_dataset < length (piece_bar_pos one_bar_dataset ! 0)
   \<and> length ([0, 5] @ replicate 14 (5 :: int)) = model_max_bars one_bar_dataset"
proof -
  have h: "case appoint_st_bar two_bar_dataset of None \<Rightarrow> True | Some a \<Rightarrow> 0 \<le> a"
    by (simp add: two_bar_dataset_def)
  have i: "0 < length (pieces two_bar_dataset)" by (simp add: two_bar_dataset_def)
  have b: "model_max_bars two_bar_dataset < length (piece_bar_pos two_bar_dataset ! 0)"
    by (simp add: two_bar_dataset_def)
  note t = bar_positions_assertion_never_fails
    [OF two_bar_build i h, where r = 0 and int_of_str = "\<lambda>_. None" and rnd = "\<lambda>_. 0",
     unfolded Let_def]
  note s = two_bar_sampled [of 0]
  note g = two_bar_getitem [of "\<lambda>_. None" 0 "\<lambda>_. 0"]
  from t [THEN conjunct1] s b
  have t1: "length [0, 3 :: int] = model_max_bars two_bar_dataset
      \<and> (\<forall>bar_tokens :: nat list.
            length ([0, 3] @ [int (length bar_tokens)]) = model_max_bars two_bar_dataset + 1)"
    by simp
  note t2 = t [THEN conjunct2, THEN conjunct1]
  note t3 = t [THEN conjunct2, THEN conjunct2, rule_format, OF g]
  have h1: "case appoint_st_bar one_bar_dataset of None \<Rightarrow> True | Some a \<Rightarrow> 0 \<le> a"
    by (simp add: one_bar_dataset_def default_dataset_def)
  have i1: "0 < length (pieces one_bar_dataset)" by (simp add: one_bar_dataset_def)
  have b1: "\<not> model_max_bars one_bar_dataset < length (piece_bar_pos one_bar_dataset ! 0)"
    by (simp add: one_bar_dataset_def default_dataset_def)
  note u = bar_positions_assertion_never_fails
    [OF one_bar_build i1 h1, where r = 0, unfolded Let_def, THEN conjunct1]
  from u one_bar_sampled [of 0] b1
  have u1: "length ([0, 5] @ replicate 14 (5 :: int)) = model_max_bars one_bar_dataset"
    by simp
  from two_bar_build i h b s t1 [THEN conjunct1]
    t1 [THEN conjunct2, rule_format, of "[0, 2, 3, 0, 4, 1]"] t2 g t3 one_bar_build b1 u1
  show ?thesis by (intro conjI)
qed

text \<open>
  C3, at a piece with exactly one bar under \<^verbatim>\<open>model_max_bars = 16\<close>: for every random
  draw the window starts at bar 0 and the sampler returns the boundaries 0 and 5 followed
  by 14 repetitions of the piece-ending boundary 5 (\<^verbatim>\<open>__getitem__\<close> appends the token
  count 5, the 17th entry), but \<^verbatim>\<open>n_bars\<close> is 2: the number of boundary entries of the
  piece, not the number of its bars, which is 1.
\<close>

theorem one_bar_piece_n_bars:
  "build_dataset (pieces one_bar_dataset) = Inr (piece_bar_pos one_bar_dataset)
   \<and> model_max_bars one_bar_dataset = 16
   \<and> get_sample_from_file one_bar_dataset r 0
       = Inr (one_bar_events, 0, [0, 5] @ replicate 14 5, 2)"
  using one_bar_build one_bar_sampled [of r]
  by (simp add: one_bar_dataset_def default_dataset_def)

text \<open>
  C9, at a piece of two bars in a dataset of two-bar windows: the sample's boundaries
  are 0, 3, 6 and the per-bar labels are 1, 2 (polyphony) and 3, 4 (rhythm), but the
  expanded arrays carry a label on the positions 0..2 of the first bar only; the
  positions 3..5 of the second bar, a real bar, keep 0.
\<close>

theorem last_bar_unlabelled:
  "build_dataset (pieces two_bar_dataset) = Inr (piece_bar_pos two_bar_dataset)
   \<and> getitem int_of_str two_bar_dataset r rnd 0 = Some (Inr two_bar_sample)
   \<and> s_bar_pos two_bar_sample = [0, 3, 6] \<and> s_enc_n_bars two_bar_sample = 2
   \<and> s_polyph_cls_bar two_bar_sample = [1, 2]
   \<and> s_polyph_cls two_bar_sample = [1, 1, 1, 0, 0, 0, 0, 0]
   \<and> s_rhymfreq_cls_bar two_bar_sample = [3, 4]
   \<and> s_rhymfreq_cls two_bar_sample = [3, 3, 3, 0, 0, 0, 0, 0]"
  using two_bar_build two_bar_getitem [of int_of_str r rnd]
  by (simp add: two_bar_sample_def)

subsection \<open>Encoder arrays\<close>

lemma enc_step_Inr:
  assumes "b < length (enc_padding_mask d)" "b < length (enc_lens d)" "b < length (padded_enc_input d)"
  shows "enc_step ds toks b (st, ed) d =
     Inr \<lparr>padded_enc_input = (padded_enc_input d)
             [b := take (model_enc_seqlen ds)
                     (pad_sequence (py_slice toks st ed) (model_enc_seqlen ds) (pad_token ds))],
          enc_padding_mask = (enc_padding_mask d)
             [b := assign_slice (enc_padding_mask d ! b) 0 (ed - st) False],
          enc_lens = (enc_lens d)[b := ed - st]\<rparr>"
  using assms length_padded_row [of "py_slice toks st ed" "model_enc_seqlen ds" "pad_token ds"]
  by (simp add: enc_step_def Let_def py_slice_take)

lemma enc_loop_Inr:
  assumes "b + length ps \<le> m" "length (enc_padding_mask d) = m" "length (enc_lens d) = m"
    "length (padded_enc_input d) = m"
  shows "\<exists>d'. enc_loop ds toks ps b d = Inr d'
     \<and> length (enc_padding_mask d') = m \<and> length (enc_lens d') = m
     \<and> length (padded_enc_input d') = m
     \<and> (\<forall>j < m. if b \<le> j \<and> j < b + length ps
           then enc_padding_mask d' ! j
                  = assign_slice (enc_padding_mask d ! j) 0
                      (snd (ps ! (j - b)) - fst (ps ! (j - b))) False
                \<and> enc_lens d' ! j = snd (ps ! (j - b)) - fst (ps ! (j - b))
                \<and> padded_enc_input d' ! j
                  = take (model_enc_seqlen ds)
                      (pad_sequence (py_slice toks (fst (ps ! (j - b))) (snd (ps ! (j - b))))
                         (model_enc_seqlen ds) (pad_token ds))
           else enc_padding_mask d' ! j = enc_padding_mask d ! j
                \<and> enc_lens d' ! j = enc_lens d ! j
                \<and> padded_enc_input d' ! j = padded_enc_input d ! j)"
  using assms
proof (induction ps arbitrary: b d)
  case Nil
  then show ?case by auto
next
  case (Cons p ps)
  obtain st ed where p: "p = (st, ed)" by (cases p)
  let ?d1 = "\<lparr>padded_enc_input = (padded_enc_input d)
             [b := take (model_enc_seqlen ds)
                     (pad_sequence (py_slice toks st ed) (model_enc_seqlen ds) (pad_token ds))],
          enc_padding_mask = (enc_padding_mask d)
             [b := assign_slice (enc_padding_mask d ! b) 0 (ed - st) False],
          enc_lens = (enc_lens d)[b := ed - st]\<rparr>"
  from Cons.prems have b: "b < m" by simp
  with Cons.prems have step: "enc_step ds toks b (st, ed) d = Inr ?d1"
    by (intro enc_step_Inr) simp_all
  from Cons.prems have pre: "Suc b + length ps \<le> m" "length (enc_padding_mask ?d1) = m"
    "length (enc_lens ?d1) = m" "length (padded_enc_input ?d1) = m"
    by simp_all
  from Cons.IH [OF pre] obtain d' where
    run: "enc_loop ds toks ps (Suc b) ?d1 = Inr d'"
    and len: "length (enc_padding_mask d') = m" "length (enc_lens d') = m"
      "length (padded_enc_input d') = m"
    and rows: "\<forall>j < m. if Suc b \<le> j \<and> j < Suc b + length ps
           then enc_padding_mask d' ! j
                  = assign_slice (enc_padding_mask ?d1 ! j) 0
                      (snd (ps ! (j - Suc b)) - fst (ps ! (j - Suc b))) False
                \<and> enc_lens d' ! j = snd (ps ! (j - Suc b)) - fst (ps ! (j - Suc b))
                \<and> padded_enc_input d' ! j
                  = take (model_enc_seqlen ds)
                      (pad_sequence (py_slice toks (fst (ps ! (j - Suc b))) (snd (ps ! (j - Suc b))))
                         (model_enc_seqlen ds) (pad_token ds))
           else enc_padding_mask d' ! j = enc_padding_mask ?d1 ! j
                \<and> enc_lens d' ! j = enc_lens ?d1 ! j
                \<and> padded_enc_input d' ! j = padded_enc_input ?d1 ! j"
    by blast
  have "enc_loop ds toks (p # ps) b d = Inr d'"
    using step run by (simp add: p)
  moreover have "if b \<le> j \<and> j < b + length (p # ps)
           then enc_padding_mask d' ! j
                  = assign_slice (enc_padding_mask d ! j) 0
                      (snd ((p # ps) ! (j - b)) - fst ((p # ps) ! (j - b))) False
                \<and> enc_lens d' ! j = snd ((p # ps) ! (j - b)) - fst ((p # ps) ! (j - b))
                \<and> padded_enc_input d' ! j
                  = take (model_enc_seqlen ds)
                      (pad_sequence (py_slice toks (fst ((p # ps) ! (j - b))) (snd ((p # ps) ! (j - b))))
                         (model_enc_seqlen ds) (pad_token ds))
           else enc_padding_mask d' ! j = enc_padding_mask d ! j
                \<and> enc_lens d' ! j = enc_lens d ! j
                \<and> padded_enc_input d' ! j = padded_enc_input d ! j" if j: "j < m" for j
  proof -
    consider "j < b" | "j = b" | "Suc b \<le> j" "j < Suc b + length ps" | "Suc b + length ps \<le> j"
      by linarith
    then show ?thesis
    proof cases
      case 1
      with rows [rule_format, OF j] Cons.prems show ?thesis by simp
    next
      case 2
      with rows [rule_format, OF j] Cons.prems b show ?thesis by (simp add: p)
    next
      case 3
      then have "j - b = Suc (j - Suc b)" by simp
      with 3 rows [rule_format, OF j] Cons.prems show ?thesis by simp
    next
      case 4
      with rows [rule_format, OF j] Cons.prems show ?thesis by simp
    qed
  qed
  ultimately show ?case using len by blast
qed


lemma py_slice_from_1: "py_slice_from xs 1 = drop 1 xs"
  by (cases xs) (simp_all add: py_slice_from_def slice_bound_def)

lemma window_pairs:
  assumes "length bp = Suc m"
  shows "length (zip (py_slice bp 0 (- 1)) (py_slice_from bp 1)) = m"
    and "j < m \<Longrightarrow> zip (py_slice bp 0 (- 1)) (py_slice_from bp 1) ! j = (bp ! j, bp ! Suc j)"
  using assms by (simp_all add: py_slice_butlast py_slice_from_1 nth_butlast)

text \<open>
  C7: for every boundary list with exactly \<^verbatim>\<open>model_max_bars + 1\<close> entries,
  \<^verbatim>\<open>get_encoder_input_data\<close> returns an input array and a padding mask of
  \<^verbatim>\<open>model_max_bars\<close> rows of \<^verbatim>\<open>model_enc_seqlen\<close> columns each; for each bar \<open>b\<close> with
  length \<open>l = end - start\<close>, \<^verbatim>\<open>enc_lens[b]\<close> is \<open>l\<close>, row \<open>b\<close> of the input is the bar's
  token slice right-padded with the pad code and truncated to \<^verbatim>\<open>model_enc_seqlen\<close>, the
  first two columns of the mask row are unmasked whatever \<open>l\<close> is, and so are the first
  \<open>l\<close> columns; the columns from the second on that are not among the first \<open>l \<ge> 0\<close>
  stay masked.
\<close>

theorem get_encoder_input_data_shape:
  assumes "length bar_positions = model_max_bars ds + 1"
  shows "\<exists>enc. get_encoder_input_data ds bar_positions bar_events = Inr enc
     \<and> length (padded_enc_input enc) = model_max_bars ds
     \<and> length (enc_padding_mask enc) = model_max_bars ds
     \<and> length (enc_lens enc) = model_max_bars ds
     \<and> (\<forall>b < model_max_bars ds.
          length (padded_enc_input enc ! b) = model_enc_seqlen ds
          \<and> length (enc_padding_mask enc ! b) = model_enc_seqlen ds
          \<and> enc_lens enc ! b = bar_positions ! Suc b - bar_positions ! b
          \<and> padded_enc_input enc ! b
              = take (model_enc_seqlen ds)
                  (py_slice bar_events (bar_positions ! b) (bar_positions ! Suc b)
                   @ replicate (model_enc_seqlen ds
                       - length (py_slice bar_events (bar_positions ! b) (bar_positions ! Suc b)))
                       (pad_token ds))
          \<and> (\<forall>c < model_enc_seqlen ds.
                (c < 2 \<longrightarrow> \<not> enc_padding_mask enc ! b ! c)
                \<and> (int c < bar_positions ! Suc b - bar_positions ! b
                      \<longrightarrow> \<not> enc_padding_mask enc ! b ! c)
                \<and> (2 \<le> c \<and> 0 \<le> bar_positions ! Suc b - bar_positions ! b
                      \<and> bar_positions ! Suc b - bar_positions ! b \<le> int c
                      \<longrightarrow> enc_padding_mask enc ! b ! c)))"
proof -
  let ?m = "model_max_bars ds" and ?n = "model_enc_seqlen ds"
  define ps where "ps = zip (py_slice bar_positions 0 (- 1)) (py_slice_from bar_positions 1)"
  define d0 where "d0 = \<lparr>padded_enc_input = replicate ?m (replicate ?n (pad_token ds)),
            enc_padding_mask = map (\<lambda>row. assign_slice row 0 2 False)
                                 (replicate ?m (replicate ?n True)),
            enc_lens = replicate ?m 0\<rparr>"
  from assms have l: "length bar_positions = Suc ?m" by simp
  note wp = window_pairs [OF l, folded ps_def]
  have pre: "0 + length ps \<le> ?m" "length (enc_padding_mask d0) = ?m"
    "length (enc_lens d0) = ?m" "length (padded_enc_input d0) = ?m"
    by (simp_all add: wp(1) d0_def)
  have init: "enc_padding_mask d0 ! j = assign_slice (replicate ?n True) 0 2 False"
    if "j < ?m" for j
    using that by (simp add: d0_def)
  from enc_loop_Inr [OF pre, of ds bar_events] obtain enc where
    run: "enc_loop ds bar_events ps 0 d0 = Inr enc"
    and len: "length (enc_padding_mask enc) = ?m" "length (enc_lens enc) = ?m"
      "length (padded_enc_input enc) = ?m"
    and rows0: "\<forall>j < ?m. if 0 \<le> j \<and> j < 0 + length ps
           then enc_padding_mask enc ! j
                  = assign_slice (enc_padding_mask d0 ! j) 0
                      (snd (ps ! (j - 0)) - fst (ps ! (j - 0))) False
                \<and> enc_lens enc ! j = snd (ps ! (j - 0)) - fst (ps ! (j - 0))
                \<and> padded_enc_input enc ! j
                  = take ?n
                      (pad_sequence (py_slice bar_events (fst (ps ! (j - 0))) (snd (ps ! (j - 0))))
                         ?n (pad_token ds))
           else enc_padding_mask enc ! j = enc_padding_mask d0 ! j
                \<and> enc_lens enc ! j = enc_lens d0 ! j
                \<and> padded_enc_input enc ! j = padded_enc_input d0 ! j"
    by blast
  have rows: "enc_padding_mask enc ! j
          = assign_slice (assign_slice (replicate ?n True) 0 2 False) 0
              (bar_positions ! Suc j - bar_positions ! j) False
        \<and> enc_lens enc ! j = bar_positions ! Suc j - bar_positions ! j
        \<and> padded_enc_input enc ! j
          = take ?n (pad_sequence (py_slice bar_events (bar_positions ! j) (bar_positions ! Suc j))
                       ?n (pad_token ds))" if j: "j < ?m" for j
    using rows0 [rule_format, OF j] j wp(2) [OF j] init [OF j] by (simp add: wp(1))
  have get: "get_encoder_input_data ds bar_positions bar_events = Inr enc"
    using assms run by (simp add: get_encoder_input_data_def ps_def d0_def)
  have row: "length (padded_enc_input enc ! b) = ?n
          \<and> length (enc_padding_mask enc ! b) = ?n
          \<and> enc_lens enc ! b = bar_positions ! Suc b - bar_positions ! b
          \<and> padded_enc_input enc ! b
              = take ?n
                  (py_slice bar_events (bar_positions ! b) (bar_positions ! Suc b)
                   @ replicate (?n
                       - length (py_slice bar_events (bar_positions ! b) (bar_positions ! Suc b)))
                       (pad_token ds))
          \<and> (\<forall>c < ?n.
                (c < 2 \<longrightarrow> \<not> enc_padding_mask enc ! b ! c)
                \<and> (int c < bar_positions ! Suc b - bar_positions ! b
                      \<longrightarrow> \<not> enc_padding_mask enc ! b ! c)
                \<and> (2 \<le> c \<and> 0 \<le> bar_positions ! Suc b - bar_positions ! b
                      \<and> bar_positions ! Suc b - bar_positions ! b \<le> int c
                      \<longrightarrow> enc_padding_mask enc ! b ! c))" if b: "b < ?m" for b
  proof -
    let ?l = "bar_positions ! Suc b - bar_positions ! b"
    let ?slice = "py_slice bar_events (bar_positions ! b) (bar_positions ! Suc b)"
    from rows [OF b]
    have mask: "enc_padding_mask enc ! b
        = assign_slice (assign_slice (replicate ?n True) 0 2 False) 0 ?l False"
      and lens: "enc_lens enc ! b = ?l"
      and inp: "padded_enc_input enc ! b = take ?n (?slice @ replicate (?n - length ?slice) (pad_token ds))"
      by (simp_all add: pad_sequence_def)
    have li: "length (padded_enc_input enc ! b) = ?n" by (auto simp: inp)
    have lm: "length (enc_padding_mask enc ! b) = ?n" by (simp add: mask length_assign_prefix)
    have cell: "enc_padding_mask enc ! b ! c
        = (\<not> c < slice_bound ?n ?l \<and> \<not> c < slice_bound ?n 2)" if "c < ?n" for c
      using that by (simp add: mask nth_assign_prefix length_assign_prefix)
    have cols: "(c < 2 \<longrightarrow> \<not> enc_padding_mask enc ! b ! c)
                \<and> (int c < ?l \<longrightarrow> \<not> enc_padding_mask enc ! b ! c)
                \<and> (2 \<le> c \<and> 0 \<le> ?l \<and> ?l \<le> int c \<longrightarrow> enc_padding_mask enc ! b ! c)"
      if c: "c < ?n" for c
      using c by (auto simp: cell [OF c] slice_bound_def)
    from li lm lens inp cols show ?thesis by blast
  qed
  from get len row show ?thesis by blast
qed


text \<open>
  The boundaries 0, 3, 6 of the two-bar example: in the row of bar 1, of length 3, the
  columns 1 and 2 are unmasked and column 3 is masked.
\<close>

theorem get_encoder_input_data_shape_witness:
  "length [0, 3, 6 :: int] = model_max_bars two_bar_dataset + 1
   \<and> (\<exists>enc. get_encoder_input_data two_bar_dataset [0, 3, 6] [0, 2, 3, 0, 4, 1] = Inr enc
        \<and> length (padded_enc_input enc) = model_max_bars two_bar_dataset
        \<and> 1 < model_max_bars two_bar_dataset
        \<and> length (padded_enc_input enc ! 1) = model_enc_seqlen two_bar_dataset
        \<and> enc_lens enc ! 1 = [0, 3, 6] ! Suc 1 - [0, 3, 6] ! 1
        \<and> 1 < model_enc_seqlen two_bar_dataset \<and> (1::nat) < 2
        \<and> \<not> enc_padding_mask enc ! 1 ! 1
        \<and> 2 < model_enc_seqlen two_bar_dataset \<and> int 2 < [0, 3, 6] ! Suc 1 - [0, 3, 6] ! 1
        \<and> \<not> enc_padding_mask enc ! 1 ! 2
        \<and> 3 < model_enc_seqlen two_bar_dataset \<and> (2::nat) \<le> 3
        \<and> (0::int) \<le> [0, 3, 6] ! Suc 1 - [0, 3, 6] ! 1
        \<and> [0, 3, 6] ! Suc 1 - [0, 3, 6] ! 1 \<le> int 3
        \<and> enc_padding_mask enc ! 1 ! 3)"
proof -
  let ?bp = "[0, 3, 6 :: int]"
  have h: "length ?bp = model_max_bars two_bar_dataset + 1"
    by (simp add: two_bar_dataset_def)
  from get_encoder_input_data_shape [OF h, of "[0, 2, 3, 0, 4, 1]"] obtain enc where
    g: "get_encoder_input_data two_bar_dataset ?bp [0, 2, 3, 0, 4, 1] = Inr enc"
    and l: "length (padded_enc_input enc) = model_max_bars two_bar_dataset"
    and r: "\<forall>b < model_max_bars two_bar_dataset.
          length (padded_enc_input enc ! b) = model_enc_seqlen two_bar_dataset
          \<and> length (enc_padding_mask enc ! b) = model_enc_seqlen two_bar_dataset
          \<and> enc_lens enc ! b = ?bp ! Suc b - ?bp ! b
          \<and> padded_enc_input enc ! b
              = take (model_enc_seqlen two_bar_dataset)
                  (py_slice [0, 2, 3, 0, 4, 1] (?bp ! b) (?bp ! Suc b)
                   @ replicate (model_enc_seqlen two_bar_dataset
                       - length (py_slice [0, 2, 3, 0, 4, 1 :: nat] (?bp ! b) (?bp ! Suc b)))
                       (pad_token two_bar_dataset))
          \<and> (\<forall>c < model_enc_seqlen two_bar_dataset.
                (c < 2 \<longrightarrow> \<not> enc_padding_mask enc ! b ! c)
                \<and> (int c < ?bp ! Suc b - ?bp ! b \<longrightarrow> \<not> enc_padding_mask enc ! b ! c)
                \<and> (2 \<le> c \<and> 0 \<le> ?bp ! Suc b - ?bp ! b \<and> ?bp ! Suc b - ?bp ! b \<le> int c
                      \<longrightarrow> enc_padding_mask enc ! b ! c))"
    by (elim exE conjE) (rule that; assumption)
  have b: "1 < model_max_bars two_bar_dataset" by (simp add: two_bar_dataset_def)
  have c1: "1 < model_enc_seqlen two_bar_dataset" and c2: "2 < model_enc_seqlen two_bar_dataset"
    and c3: "3 < model_enc_seqlen two_bar_dataset"
    by (simp_all add: two_bar_dataset_def)
  have p1: "(1::nat) < 2" by simp
  have p2: "int 2 < ?bp ! Suc 1 - ?bp ! 1" by simp
  have p3: "(2::nat) \<le> 3" "(0::int) \<le> ?bp ! Suc 1 - ?bp ! 1" "?bp ! Suc 1 - ?bp ! 1 \<le> int 3"
    by simp_all
  note rb = r [rule_format, OF b]
  note cols = rb [THEN conjunct2, THEN conjunct2, THEN conjunct2, THEN conjunct2]
  note m1 = cols [rule_format, OF c1, THEN conjunct1, rule_format, OF p1]
  note m2 = cols [rule_format, OF c2, THEN conjunct2, THEN conjunct1, rule_format, OF p2]
  have m3: "enc_padding_mask enc ! 1 ! 3"
    using cols [rule_format, OF c3, THEN conjunct2, THEN conjunct2] p3 by blast
  have f: "get_encoder_input_data two_bar_dataset ?bp [0, 2, 3, 0, 4, 1] = Inr enc
        \<and> length (padded_enc_input enc) = model_max_bars two_bar_dataset
        \<and> 1 < model_max_bars two_bar_dataset
        \<and> length (padded_enc_input enc ! 1) = model_enc_seqlen two_bar_dataset
        \<and> enc_lens enc ! 1 = ?bp ! Suc 1 - ?bp ! 1
        \<and> 1 < model_enc_seqlen two_bar_dataset \<and> (1::nat) < 2
        \<and> \<not> enc_padding_mask enc ! 1 ! 1
        \<and> 2 < model_enc_seqlen two_bar_dataset \<and> int 2 < ?bp ! Suc 1 - ?bp ! 1
        \<and> \<not> enc_padding_mask enc ! 1 ! 2
        \<and> 3 < model_enc_seqlen two_bar_dataset \<and> (2::nat) \<le> 3
        \<and> (0::int) \<le> ?bp ! Suc 1 - ?bp ! 1
        \<and> ?bp ! Suc 1 - ?bp ! 1 \<le> int 3
        \<and> enc_padding_mask enc ! 1 ! 3"
    by (intro conjI g l b rb [THEN conjunct1]
          rb [THEN conjunct2, THEN conjunct2, THEN conjunct1] c1 p1 m1 c2 p2 m2 c3 p3 m3)
  show ?thesis
    apply (rule conjI [OF h])
    apply (rule exI [of _ enc])
    apply (rule f)
    done
qed

end
